theory Spec2Isabelle
  imports Complex_Main
begin

section \<open>The instruments import script\<close>

text \<open>
  A shallow embedding of \<^verbatim>\<open>import-instruments.py\<close>: one procedure that clears the
  \<^verbatim>\<open>instruments\<close> table, reads a CSV file, turns every row into a record, writes
  records with \<^verbatim>\<open>executemany\<close>, rebuilds the full-text index, appends a row to the
  refresh log and prints a summary; and the \<^verbatim>\<open>__main__\<close> block that maps the outcome
  to an exit status.

  What lies outside the script is a parameter of the model:
  \<^item> \<^verbatim>\<open>float\<close> and \<^verbatim>\<open>int\<close> are \<open>parse_float\<close> and \<open>parse_int\<close>, returning \<open>None\<close>
    where the builtin raises \<^verbatim>\<open>ValueError\<close>; the type \<open>'f\<close> stands for Python's floats;
  \<^item> \<^verbatim>\<open>datetime.now().isoformat()\<close> is \<open>now k\<close>, the result of the \<open>k\<close>-th call of the
    run (counting from 0);
  \<^item> the CSV file is the list of dictionaries that \<^verbatim>\<open>csv.DictReader\<close> yields, the
    header line already consumed;
  \<^item> the database is a value holding the three tables; the engine itself is assumed
    not to fail (the tables exist, the file is not locked).
\<close>

subsection \<open>Data\<close>

datatype error = ValueError | TypeError | UnboundLocalError | ZeroDivisionError

text \<open>
  A row of \<^verbatim>\<open>csv.DictReader\<close>: a dictionary from column name to field. The header is
  taken to name every column the script reads, so a lookup never raises
  \<^verbatim>\<open>KeyError\<close>; \<open>row k = None\<close> is Python's \<^verbatim>\<open>None\<close>, which the reader stores for a
  column that a short line leaves out, and \<open>row k = Some s\<close> is the string \<open>s\<close>.
\<close>

type_synonym csv_row = "string \<rightharpoonup> string"

text \<open>
  The 13-tuple \<^verbatim>\<open>record\<close> of the script, in the order of the \<^verbatim>\<open>INSERT\<close> column list.
  \<open>None\<close> is SQL \<^verbatim>\<open>NULL\<close>.
\<close>

record 'f instrument =
  symbol :: "string option"
  brsymbol :: "string option"
  name :: "string option"
  exchange :: "string option"
  token :: "string option"
  expiry :: "string option"
  strike :: "'f option"
  lotsize :: int
  instrumenttype :: "string option"
  tick_size :: "'f option"
  created_at :: string
  updated_at :: string
  brexchange :: "string option"

text \<open>
  A row of \<^verbatim>\<open>instruments_refresh_log\<close>, with the five columns the script writes. Its
  first column is called \<^verbatim>\<open>exchange\<close> in the table; it is \<open>log_exchange\<close> here because
  the instrument record already has a field of that name.
\<close>

record refresh_log_row =
  log_exchange :: string
  status :: string
  instrument_count :: nat
  refresh_started_at :: string
  refresh_completed_at :: string

text \<open>
  Modelled from the spec: the schema of the database is not part of the script. Following
  sections 3 and 6 of the specification, \<^verbatim>\<open>instruments\<close> has an integer primary key
  \<^verbatim>\<open>id\<close> and the thirteen columns above, every text and float column nullable and no
  further constraint; \<^verbatim>\<open>instruments_fts\<close> is keyed by \<^verbatim>\<open>rowid\<close> and holds
  (symbol, name); \<^verbatim>\<open>instruments_refresh_log\<close> is a plain table.
  A table is the list of its rows in rowid order. \<open>sqlite_sequence\<close> is the engine's
  counter for \<^verbatim>\<open>instruments\<close>: \<open>None\<close> when the key is a plain
  \<^verbatim>\<open>INTEGER PRIMARY KEY\<close>, \<open>Some n\<close> when it is \<^verbatim>\<open>AUTOINCREMENT\<close> and \<open>n\<close> is the largest
  id handed out so far.
\<close>

record 'f db =
  instruments :: "(nat \<times> 'f instrument) list"
  instruments_fts :: "(nat \<times> string option \<times> string option) list"
  instruments_refresh_log :: "refresh_log_row list"
  sqlite_sequence :: "nat option"

text \<open>
  What the script prints. A line with interpolated values carries the values; the
  rendering of numbers (thousands separators, the percentage to one decimal) is not
  modelled, and the check marks and emoji of the literal texts are left out.
  \<open>Processing i total\<close> is the line
  \<^verbatim>\<open>Processing... {i:,}/{total_rows:,} ({progress:.1f}%)\<close> with
  \<^verbatim>\<open>progress = (i / total_rows) * 100\<close>; \<open>TotalInstruments\<close> and \<open>FtsRecords\<close> are the two
  counts printed after the import, \<open>SummaryInstruments\<close> and \<open>SummaryFts\<close> the same
  counts in the closing lines.
\<close>

datatype line =
    Text string
  | TotalRecords nat
  | CommittedBatch nat
  | Processing nat nat
  | CommittedFinal nat
  | TotalInstruments nat
  | FtsRecords nat
  | Sample string string string string
  | Breakdown string nat
  | SummaryInstruments nat
  | SummaryFts nat
  | ImportFailed error
  | Traceback error

datatype event = Stdout line | Stderr line

text \<open>
  The state of the process: the database as the open connection sees it (\<open>live\<close>), the
  database as of the last \<^verbatim>\<open>commit\<close> (\<open>durable\<close>, what remains when the process exits),
  the output so far, and the local variables \<^verbatim>\<open>batch\<close> (\<open>None\<close> while unbound) and
  \<^verbatim>\<open>inserted\<close>.
\<close>

record 'f state =
  live :: "'f db"
  durable :: "'f db"
  out :: "event list"
  batch :: "'f instrument list option"
  inserted :: nat

type_synonym 'f result = "(error \<times> 'f state) + 'f state"

subsection \<open>Connection and SQL statements\<close>

definition print_line :: "line \<Rightarrow> 'f state \<Rightarrow> 'f state" where
  "print_line l s = s\<lparr>out := out s @ [Stdout l]\<rparr>"

definition execute :: "('f db \<Rightarrow> 'f db) \<Rightarrow> 'f state \<Rightarrow> 'f state" where
  "execute q s = s\<lparr>live := q (live s)\<rparr>"

definition commit :: "'f state \<Rightarrow> 'f state" where
  "commit s = s\<lparr>durable := live s\<rparr>"

text \<open>\<^verbatim>\<open>DELETE FROM instruments\<close>\<close>

definition delete_instruments :: "'f db \<Rightarrow> 'f db" where
  "delete_instruments d = d\<lparr>instruments := []\<rparr>"

text \<open>
  The id a new row of \<^verbatim>\<open>instruments\<close> receives: one more than the largest id in the
  table, and with \<^verbatim>\<open>AUTOINCREMENT\<close> one more than the largest id ever used.
\<close>

definition next_rowid :: "'f db \<Rightarrow> nat" where
  "next_rowid d =
     Suc (fold max (map fst (instruments d))
            (case sqlite_sequence d of None \<Rightarrow> 0 | Some n \<Rightarrow> n))"

definition insert_instrument :: "'f instrument \<Rightarrow> 'f db \<Rightarrow> 'f db" where
  "insert_instrument r d =
     (let i = next_rowid d
      in d\<lparr>instruments := instruments d @ [(i, r)],
           sqlite_sequence := map_option (\<lambda>_. i) (sqlite_sequence d)\<rparr>)"

text \<open>\<^verbatim>\<open>cursor.executemany(sql, batch)\<close> with the \<^verbatim>\<open>INSERT INTO instruments\<close> statement\<close>

definition executemany :: "'f instrument list \<Rightarrow> 'f db \<Rightarrow> 'f db" where
  "executemany rs d = fold insert_instrument rs d"

text \<open>\<^verbatim>\<open>SELECT COUNT(*) FROM instruments\<close> and \<^verbatim>\<open>SELECT COUNT(*) FROM instruments_fts\<close>\<close>

definition count_instruments :: "'f db \<Rightarrow> nat" where
  "count_instruments d = length (instruments d)"

definition count_fts :: "'f db \<Rightarrow> nat" where
  "count_fts d = length (instruments_fts d)"

text \<open>\<^verbatim>\<open>DELETE FROM instruments_fts\<close>\<close>

definition delete_fts :: "'f db \<Rightarrow> 'f db" where
  "delete_fts d = d\<lparr>instruments_fts := []\<rparr>"

text \<open>
  \<^verbatim>\<open>INSERT INTO instruments_fts(rowid, symbol, name) SELECT id, symbol, name FROM instruments\<close>
\<close>

definition insert_fts :: "'f db \<Rightarrow> 'f db" where
  "insert_fts d =
     d\<lparr>instruments_fts :=
         instruments_fts d @ map (\<lambda>(i, r). (i, symbol r, name r)) (instruments d)\<rparr>"

text \<open>The \<^verbatim>\<open>INSERT INTO instruments_refresh_log\<close> statement with its parameter list\<close>

definition insert_refresh_log :: "nat \<Rightarrow> string \<Rightarrow> string \<Rightarrow> 'f db \<Rightarrow> 'f db" where
  "insert_refresh_log count t1 t2 d =
     d\<lparr>instruments_refresh_log :=
         instruments_refresh_log d @
           [\<lparr>log_exchange = ''CSV_UPLOAD'', status = ''completed'', instrument_count = count,
             refresh_started_at = t1, refresh_completed_at = t2\<rparr>]\<rparr>"

subsection \<open>The transform of one row\<close>

text \<open>\<^verbatim>\<open>row[k] if row[k] else None\<close>\<close>

definition or_none :: "string option \<Rightarrow> string option" where
  "or_none x = (case x of None \<Rightarrow> None | Some s \<Rightarrow> if s \<noteq> [] then Some s else None)"

text \<open>\<^verbatim>\<open>None if row['expiry'] in ['-1', ''] else row['expiry']\<close>\<close>

definition expiry_of :: "string option \<Rightarrow> string option" where
  "expiry_of x =
     (case x of None \<Rightarrow> None
      | Some s \<Rightarrow> if s = ''-1'' \<or> s = [] then None else Some s)"

text \<open>
  \<^verbatim>\<open>None if x in ['-1', ''] else float(x) if x else None\<close>, for strike and tick_size.
  Python's \<^verbatim>\<open>None\<close> is not in the list and is falsy, so it yields \<^verbatim>\<open>None\<close>.
\<close>

definition float_of :: "(string \<Rightarrow> 'f option) \<Rightarrow> string option \<Rightarrow> error + 'f option" where
  "float_of parse_float x =
     (case x of None \<Rightarrow> Inr None
      | Some s \<Rightarrow>
          if s = ''-1'' \<or> s = [] then Inr None
          else if s \<noteq> [] then
            (case parse_float s of None \<Rightarrow> Inl ValueError | Some v \<Rightarrow> Inr (Some v))
          else Inr None)"

text \<open>
  \<^verbatim>\<open>1 if row['lotsize'] in ['-1', ''] else int(row['lotsize'])\<close>; \<^verbatim>\<open>int(None)\<close> raises
  \<^verbatim>\<open>TypeError\<close>.
\<close>

definition lotsize_of :: "(string \<Rightarrow> int option) \<Rightarrow> string option \<Rightarrow> error + int" where
  "lotsize_of parse_int x =
     (case x of None \<Rightarrow> Inl TypeError
      | Some s \<Rightarrow>
          if s = ''-1'' \<or> s = [] then Inr 1
          else (case parse_int s of None \<Rightarrow> Inl ValueError | Some n \<Rightarrow> Inr n))"

text \<open>
  The tuple expression of the loop body. Its elements are evaluated from left to right,
  so the first conversion that raises decides the error; \<open>t1\<close> and \<open>t2\<close> are the two
  readings of the clock.
\<close>

definition make_record ::
  "(string \<Rightarrow> 'f option) \<Rightarrow> (string \<Rightarrow> int option) \<Rightarrow> string \<Rightarrow> string \<Rightarrow> csv_row
     \<Rightarrow> error + 'f instrument" where
  "make_record parse_float parse_int t1 t2 row =
     (case float_of parse_float (row ''strike'') of
        Inl e \<Rightarrow> Inl e
      | Inr k \<Rightarrow>
     (case lotsize_of parse_int (row ''lotsize'') of
        Inl e \<Rightarrow> Inl e
      | Inr l \<Rightarrow>
     (case float_of parse_float (row ''tick_size'') of
        Inl e \<Rightarrow> Inl e
      | Inr t \<Rightarrow>
          Inr \<lparr>symbol = or_none (row ''symbol''),
               brsymbol = or_none (row ''brsymbol''),
               name = or_none (row ''name''),
               exchange = or_none (row ''exchange''),
               token = or_none (row ''token''),
               expiry = expiry_of (row ''expiry''),
               strike = k,
               lotsize = l,
               instrumenttype = or_none (row ''instrumenttype''),
               tick_size = t,
               created_at = t1,
               updated_at = t2,
               brexchange = or_none (row ''brexchange'')\<rparr>)))"

subsection \<open>The import loop\<close>

definition batch_size :: nat where
  "batch_size = 1000"

text \<open>
  The head of the loop body, \<^verbatim>\<open>if i % batch_size == 0: ...\<close>: commit and report when
  \<open>i > 0\<close>, rebind \<^verbatim>\<open>batch\<close> to a fresh empty list, compute and print the progress.
\<close>

definition begin_batch :: "nat \<Rightarrow> nat \<Rightarrow> 'f state \<Rightarrow> 'f result" where
  "begin_batch total_rows i s =
     (if i mod batch_size = 0 then
        (let s1 = (if i > 0 then print_line (CommittedBatch (inserted s)) (commit s) else s);
             s2 = s1\<lparr>batch := Some []\<rparr>
         in if total_rows = 0 then Inl (ZeroDivisionError, s2)
            else Inr (print_line (Processing i total_rows) s2))
      else Inr s)"

text \<open>
  \<^verbatim>\<open>for i, row in enumerate(reader)\<close>, from index \<open>i\<close> on. Row \<open>i\<close> reads the clock for
  the \<open>2 * i\<close>-th and the \<open>2 * i + 1\<close>-th time.
\<close>

fun import_loop ::
  "(string \<Rightarrow> 'f option) \<Rightarrow> (string \<Rightarrow> int option) \<Rightarrow> (nat \<Rightarrow> string) \<Rightarrow> nat \<Rightarrow> nat
     \<Rightarrow> csv_row list \<Rightarrow> 'f state \<Rightarrow> 'f result" where
  "import_loop parse_float parse_int now total_rows i [] s = Inr s"
| "import_loop parse_float parse_int now total_rows i (row # rest) s =
     (case begin_batch total_rows i s of
        Inl e \<Rightarrow> Inl e
      | Inr s1 \<Rightarrow>
     (case make_record parse_float parse_int (now (2 * i)) (now (2 * i + 1)) row of
        Inl e \<Rightarrow> Inl (e, s1)
      | Inr r \<Rightarrow>
     (case batch s1 of
        None \<Rightarrow> Inl (UnboundLocalError, s1)
      | Some b \<Rightarrow>
          import_loop parse_float parse_int now total_rows (Suc i) rest
            (s1\<lparr>batch := Some (b @ [r]), inserted := inserted s1 + 1\<rparr>))))"

text \<open>
  The statement after the loop, \<^verbatim>\<open>if batch: executemany; commit; print\<close>. Reading
  \<^verbatim>\<open>batch\<close> while it is unbound raises \<^verbatim>\<open>UnboundLocalError\<close>.
\<close>

definition final_batch :: "'f state \<Rightarrow> 'f result" where
  "final_batch s =
     (case batch s of
        None \<Rightarrow> Inl (UnboundLocalError, s)
      | Some b \<Rightarrow>
          if b \<noteq> [] then
            Inr (print_line (CommittedFinal (inserted s)) (commit (execute (executemany b) s)))
          else Inr s)"

subsection \<open>The summary queries and their formatting\<close>

text \<open>
  The format specification \<^verbatim>\<open>{v:20s}\<close>: a string is padded with spaces on the right up
  to the width and never cut; \<^verbatim>\<open>None\<close> does not accept the specification and raises
  \<^verbatim>\<open>TypeError\<close>.
\<close>

definition fmt_s :: "nat \<Rightarrow> string option \<Rightarrow> error + string" where
  "fmt_s w v =
     (case v of None \<Rightarrow> Inl TypeError
      | Some s \<Rightarrow> Inr (s @ replicate (w - length s) (CHR '' '')))"

text \<open>\<^verbatim>\<open>f"  {row[0]:20s} {row[1]:40s} {row[2]:10s} {row[3]}"\<close>\<close>

definition sample_line ::
  "string option \<times> string option \<times> string option \<times> string option \<Rightarrow> error + line" where
  "sample_line row =
     (case row of (c0, c1, c2, c3) \<Rightarrow>
     (case fmt_s 20 c0 of Inl e \<Rightarrow> Inl e | Inr a \<Rightarrow>
     (case fmt_s 40 c1 of Inl e \<Rightarrow> Inl e | Inr b \<Rightarrow>
     (case fmt_s 10 c2 of Inl e \<Rightarrow> Inl e | Inr c \<Rightarrow>
        Inr (Sample a b c (case c3 of None \<Rightarrow> ''None'' | Some t \<Rightarrow> t))))))"

text \<open>\<^verbatim>\<open>f"  {row[0]:20s} {row[1]:>10,}"\<close>\<close>

definition breakdown_line :: "string option \<times> nat \<Rightarrow> error + line" where
  "breakdown_line row =
     (case row of (k, n) \<Rightarrow>
     (case fmt_s 20 k of Inl e \<Rightarrow> Inl e | Inr a \<Rightarrow> Inr (Breakdown a n)))"

text \<open>\<^verbatim>\<open>for row in cursor.fetchall(): print(...)\<close>\<close>

fun print_rows :: "('r \<Rightarrow> error + line) \<Rightarrow> 'r list \<Rightarrow> 'f state \<Rightarrow> 'f result" where
  "print_rows fmt [] s = Inr s"
| "print_rows fmt (row # rest) s =
     (case fmt row of
        Inl e \<Rightarrow> Inl (e, s)
      | Inr l \<Rightarrow> print_rows fmt rest (print_line l s))"

text \<open>\<^verbatim>\<open>SELECT symbol, name, exchange, instrumenttype FROM instruments LIMIT 5\<close>\<close>

definition select_sample ::
  "'f db \<Rightarrow> (string option \<times> string option \<times> string option \<times> string option) list" where
  "select_sample d =
     take 5 (map (\<lambda>(i, r). (symbol r, name r, exchange r, instrumenttype r)) (instruments d))"

text \<open>
  \<^verbatim>\<open>SELECT k, COUNT(*) as count FROM instruments GROUP BY k ORDER BY count DESC\<close>: one row
  per distinct value of the column (\<^verbatim>\<open>NULL\<close> is a group of its own), largest count
  first. SQL leaves the order of groups with equal counts open; the model fixes one.
\<close>

definition group_count ::
  "('f instrument \<Rightarrow> string option) \<Rightarrow> 'f db \<Rightarrow> (string option \<times> nat) list" where
  "group_count col d =
     (let ks = map (\<lambda>(i, r). col r) (instruments d)
      in rev (sort_key snd (map (\<lambda>k. (k, count_list ks k)) (remdups ks))))"

text \<open>The breakdown by exchange, with its \<^verbatim>\<open>LIMIT 10\<close>, and the breakdown by type\<close>

definition select_by_exchange :: "'f db \<Rightarrow> (string option \<times> nat) list" where
  "select_by_exchange d = take 10 (group_count exchange d)"

definition select_by_type :: "'f db \<Rightarrow> (string option \<times> nat) list" where
  "select_by_type d = group_count instrumenttype d"

subsection \<open>The procedure and the entry point\<close>

text \<open>
  Lines 13 to 26: the banner, \<^verbatim>\<open>DELETE FROM instruments\<close> and its commit. (The rules of
  \<^verbatim>\<open>=\<close> and \<^verbatim>\<open>-\<close> signs and the empty lines are not recorded in the output.)
\<close>

definition clear_instruments :: "'f state \<Rightarrow> 'f state" where
  "clear_instruments s0 =
     (let s1 = print_line (Text ''Starting instruments import from CSV...'') s0;
          s2 = print_line (Text ''Clearing existing instruments...'') s1;
          s3 = commit (execute delete_instruments s2)
      in print_line (Text ''Existing instruments cleared'') s3)"

text \<open>
  Lines 28 to 42: the file is read once to count its rows and the total is printed;
  \<^verbatim>\<open>inserted\<close> starts at 0.
\<close>

definition prescan :: "csv_row list \<Rightarrow> 'f state \<Rightarrow> 'f state" where
  "prescan rows s =
     (let s1 = print_line (Text ''Reading CSV file'') s;
          total_rows = length rows;
          s2 = print_line (TotalRecords total_rows) s1
      in s2\<lparr>inserted := 0\<rparr>)"

text \<open>Lines 28 to 87: the pre-scan, the loop and the statement after it.\<close>

definition import_csv ::
  "(string \<Rightarrow> 'f option) \<Rightarrow> (string \<Rightarrow> int option) \<Rightarrow> (nat \<Rightarrow> string) \<Rightarrow> csv_row list
     \<Rightarrow> 'f state \<Rightarrow> 'f result" where
  "import_csv parse_float parse_int now rows s =
     (case import_loop parse_float parse_int now (length rows) 0 rows (prescan rows s) of
        Inl e \<Rightarrow> Inl e
      | Inr s4 \<Rightarrow> final_batch s4)"

text \<open>Lines 94 to 101: the index is emptied and filled again, then committed.\<close>

definition rebuild_fts :: "'f state \<Rightarrow> 'f state" where
  "rebuild_fts s =
     commit (execute insert_fts (execute delete_fts
       (print_line (Text ''Rebuilding FTS table...'') s)))"

text \<open>
  Lines 13 to 115 as a whole: clearing, import, the count, the rebuild of the index and
  the refresh log. The result carries the locals \<^verbatim>\<open>count\<close> and \<^verbatim>\<open>fts_count\<close>, which
  the closing lines print again. The clock has been read \<open>2 * length rows\<close> times when
  the log row is written.
\<close>

definition load_instruments ::
  "(string \<Rightarrow> 'f option) \<Rightarrow> (string \<Rightarrow> int option) \<Rightarrow> (nat \<Rightarrow> string) \<Rightarrow> csv_row list
     \<Rightarrow> 'f state \<Rightarrow> (error \<times> 'f state) + (nat \<times> nat \<times> 'f state)" where
  "load_instruments parse_float parse_int now rows s0 =
     (case import_csv parse_float parse_int now rows (clear_instruments s0) of
        Inl e \<Rightarrow> Inl e
      | Inr s1 \<Rightarrow>
          (let count = count_instruments (live s1);
               s2 = print_line (TotalInstruments count) s1;
               s3 = rebuild_fts s2;
               fts_count = count_fts (live s3);
               s4 = print_line (FtsRecords fts_count) s3;
               s5 = commit (execute
                      (insert_refresh_log count (now (2 * length rows))
                         (now (2 * length rows + 1))) s4)
           in Inr (count, fts_count, print_line (Text ''Refresh log updated'') s5)))"

text \<open>Lines 117 to 150: the sample and the two breakdowns.\<close>

definition show_summary :: "'f state \<Rightarrow> 'f result" where
  "show_summary s =
     (case print_rows sample_line (select_sample (live s))
             (print_line (Text ''Sample instruments:'') s) of
        Inl e \<Rightarrow> Inl e
      | Inr s1 \<Rightarrow>
     (case print_rows breakdown_line (select_by_exchange (live s1))
             (print_line (Text ''Instruments by exchange (top 10):'') s1) of
        Inl e \<Rightarrow> Inl e
      | Inr s2 \<Rightarrow>
          print_rows breakdown_line (select_by_type (live s2))
            (print_line (Text ''Instruments by type:'') s2)))"

text \<open>
  \<^verbatim>\<open>import_instruments()\<close>. Closing the connection changes nothing that is committed.
\<close>

definition import_instruments ::
  "(string \<Rightarrow> 'f option) \<Rightarrow> (string \<Rightarrow> int option) \<Rightarrow> (nat \<Rightarrow> string) \<Rightarrow> csv_row list
     \<Rightarrow> 'f state \<Rightarrow> 'f result" where
  "import_instruments parse_float parse_int now rows s0 =
     (case load_instruments parse_float parse_int now rows s0 of
        Inl e \<Rightarrow> Inl e
      | Inr (count, fts_count, s1) \<Rightarrow>
     (case show_summary s1 of
        Inl e \<Rightarrow> Inl e
      | Inr s2 \<Rightarrow>
          Inr (print_line (Text ''Fast symbol search is now available.'')
                (print_line (Text ''Instruments cache is now populated!'')
                  (print_line (SummaryFts fts_count)
                    (print_line (SummaryInstruments count)
                      (print_line (Text ''INSTRUMENTS IMPORT COMPLETED SUCCESSFULLY!'')
                         s2)))))))"

text \<open>The process starts on the database \<open>d\<close> with nothing printed and no local bound.\<close>

definition start :: "'f db \<Rightarrow> 'f state" where
  "start d = \<lparr>live = d, durable = d, out = [], batch = None, inserted = 0\<rparr>"

text \<open>
  The \<^verbatim>\<open>__main__\<close> block: exit status 0 after \<^verbatim>\<open>import_instruments()\<close> returns; on an
  exception the message and the traceback go to the error stream and the status is 1.
  The result is the exit status with the final state of the process.
\<close>

definition main ::
  "(string \<Rightarrow> 'f option) \<Rightarrow> (string \<Rightarrow> int option) \<Rightarrow> (nat \<Rightarrow> string) \<Rightarrow> csv_row list
     \<Rightarrow> 'f db \<Rightarrow> nat \<times> 'f state" where
  "main parse_float parse_int now rows d =
     (case import_instruments parse_float parse_int now rows (start d) of
        Inr s \<Rightarrow> (0, s)
      | Inl (e, s) \<Rightarrow> (1, s\<lparr>out := out s @ [Stderr (ImportFailed e), Stderr (Traceback e)]\<rparr>))"

subsection \<open>Predicates used in the statements\<close>

text \<open>
  A row with a malformed numeric field: a strike, lotsize or tick_size string that is
  neither \<open>-1\<close> nor empty and that \<^verbatim>\<open>float\<close> (respectively \<^verbatim>\<open>int\<close>) rejects.
\<close>

definition malformed ::
  "(string \<Rightarrow> 'f option) \<Rightarrow> (string \<Rightarrow> int option) \<Rightarrow> csv_row \<Rightarrow> bool" where
  "malformed parse_float parse_int row =
     ((case row ''strike'' of None \<Rightarrow> False
       | Some s \<Rightarrow> s \<noteq> ''-1'' \<and> s \<noteq> [] \<and> parse_float s = None)
    \<or> (case row ''lotsize'' of None \<Rightarrow> False
       | Some s \<Rightarrow> s \<noteq> ''-1'' \<and> s \<noteq> [] \<and> parse_int s = None)
    \<or> (case row ''tick_size'' of None \<Rightarrow> False
       | Some s \<Rightarrow> s \<noteq> ''-1'' \<and> s \<noteq> [] \<and> parse_float s = None))"

text \<open>
  A null reaches a fixed-width format specification of the summary: in the symbol, name
  or exchange of a sample row, or as the key of a listed exchange or type group.
\<close>

definition null_in_summary :: "'f db \<Rightarrow> bool" where
  "null_in_summary d =
     (list_ex (\<lambda>(c0, c1, c2, c3). c0 = None \<or> c1 = None \<or> c2 = None) (select_sample d)
    \<or> list_ex (\<lambda>(k, n). k = None) (select_by_exchange d)
    \<or> list_ex (\<lambda>(k, n). k = None) (select_by_type d))"

text \<open>A record without its two timestamps, to compare the records of two runs.\<close>

definition untimed :: "'f instrument \<Rightarrow> 'f instrument" where
  "untimed r = r\<lparr>created_at := [], updated_at := []\<rparr>"

subsection \<open>Worked inputs\<close>

text \<open>
  The dictionary that \<^verbatim>\<open>csv.DictReader\<close> builds from the fields of one line under the
  header of the input file; a column that a short line does not reach is \<^verbatim>\<open>None\<close>.
\<close>

definition fieldnames :: "string list" where
  "fieldnames =
     [''id'', ''symbol'', ''brsymbol'', ''name'', ''exchange'', ''brexchange'', ''token'',
      ''expiry'', ''strike'', ''lotsize'', ''instrumenttype'', ''tick_size'']"

definition dict_row :: "string list \<Rightarrow> csv_row" where
  "dict_row vs = map_of (zip fieldnames vs)"

text \<open>
  For the examples, the floats are rationals; \<open>float_example\<close> and \<open>int_example\<close> give
  what \<^verbatim>\<open>float\<close> and \<^verbatim>\<open>int\<close> return on the numeric strings of the examples and reject
  anything else, and the clock returns a different string at every reading. The
  theorems about the script hold for every parser and every clock.
\<close>

definition float_example :: "string \<Rightarrow> rat option" where
  "float_example s =
     (if s = ''12.5'' then Some (25 / 2) else if s = ''0.25'' then Some (1 / 4) else None)"

definition int_example :: "string \<Rightarrow> int option" where
  "int_example s = (if s = ''50'' then Some 50 else if s = ''75'' then Some 75 else None)"

definition clock_example :: "nat \<Rightarrow> string" where
  "clock_example k = CHR ''T'' # replicate k (CHR ''+'')"

text \<open>
  The three-row file of the scenario in section 8 of the specification: the first row has
  strike \<open>-1\<close>, an empty lotsize and an empty expiry.
\<close>

definition three_rows :: "csv_row list" where
  "three_rows =
     [dict_row [''1'', ''RELIANCE'', ''RELIANCE-EQ'', ''RELIANCE'', ''NSE'', ''NSE'', ''2885'',
                [], ''-1'', [], ''EQ'', ''0.25''],
      dict_row [''2'', ''NIFTY25JANFUT'', ''NIFTY-FUT'', ''NIFTY'', ''NFO'', ''NFO'', ''35001'',
                ''30-JAN-25'', ''-1'', ''50'', ''FUT'', ''0.25''],
      dict_row [''3'', ''NIFTY25JAN12.5CE'', ''NIFTY-CE'', ''NIFTY'', ''NFO'', ''NFO'', ''35002'',
                ''30-JAN-25'', ''12.5'', ''75'', ''CE'', ''0.25'']]"

text \<open>The same file with a strike that is not a number in its second row.\<close>

definition bad_strike_rows :: "csv_row list" where
  "bad_strike_rows =
     [three_rows ! 0,
      dict_row [''2'', ''NIFTY25JANFUT'', ''NIFTY-FUT'', ''NIFTY'', ''NFO'', ''NFO'', ''35001'',
                ''30-JAN-25'', ''abc'', ''50'', ''FUT'', ''0.25''],
      three_rows ! 2]"


text \<open>
  A database left by an earlier import: one instrument with id 7, its index row and
  one row in the log.
\<close>

definition stale_db :: "rat db" where
  "stale_db =
     \<lparr>instruments =
        [(7, \<lparr>symbol = Some ''OLD'', brsymbol = None, name = Some ''OLD'',
              exchange = Some ''NSE'', token = None, expiry = None, strike = None,
              lotsize = 1, instrumenttype = None, tick_size = None, created_at = ''T'',
              updated_at = ''T'', brexchange = None\<rparr>)],
      instruments_fts = [(7, Some ''OLD'', Some ''OLD'')],
      instruments_refresh_log =
        [\<lparr>log_exchange = ''NSE'', status = ''completed'', instrument_count = 1,
          refresh_started_at = ''T'', refresh_completed_at = ''T''\<rparr>],
      sqlite_sequence = Some 7\<rparr>"

text \<open>
  A file of 1001 rows: row \<open>k\<close> has a symbol of its own and the numeric fields of an
  equity (no strike, no lot size, no tick size).
\<close>

definition numbered_row :: "nat \<Rightarrow> csv_row" where
  "numbered_row k =
     dict_row [''0'', CHR ''S'' # replicate k (CHR ''X''), ''SX'', ''ACME'', ''NSE'', ''NSE'',
               ''11'', [], ''-1'', [], ''EQ'', ''-1'']"

definition rows_1001 :: "csv_row list" where
  "rows_1001 = map numbered_row [0..<1001]"



text \<open>The final state of the run on the three-row file, from the stale database.\<close>

definition three_rows_run :: "rat state" where
  "three_rows_run = snd (main float_example int_example clock_example three_rows stale_db)"

section \<open>Properties\<close>

subsection \<open>Connection and loop\<close>

lemma print_line_simps [simp]:
  "live (print_line l s) = live s"
  "durable (print_line l s) = durable s"
  "batch (print_line l s) = batch s"
  "inserted (print_line l s) = inserted s"
  "out (print_line l s) = out s @ [Stdout l]"
  by (simp_all add: print_line_def)

lemma commit_simps [simp]:
  "live (commit s) = live s"
  "durable (commit s) = live s"
  "batch (commit s) = batch s"
  "inserted (commit s) = inserted s"
  "out (commit s) = out s"
  by (simp_all add: commit_def)

lemma execute_simps [simp]:
  "live (execute q s) = q (live s)"
  "durable (execute q s) = durable s"
  "batch (execute q s) = batch s"
  "inserted (execute q s) = inserted s"
  "out (execute q s) = out s"
  by (simp_all add: execute_def)

lemma begin_batch_Inr:
  assumes "begin_batch tot i s = Inr s'"
  shows "live s' = live s"
    and "durable s' = durable s \<or> durable s' = live s"
    and "inserted s' = inserted s"
    and "batch s' = (if i mod batch_size = 0 then Some [] else batch s)"
  using assms by (auto simp: begin_batch_def Let_def split: if_splits)

lemma begin_batch_Inl:
  assumes "begin_batch tot i s = Inl (e, s')"
  shows "tot = 0" and "live s' = live s"
    and "durable s' = durable s \<or> durable s' = live s"
  using assms by (auto simp: begin_batch_def Let_def split: if_splits)

lemma begin_batch_total:
  "0 < tot \<Longrightarrow> \<exists>s'. begin_batch tot i s = Inr s'"
  by (simp add: begin_batch_def Let_def)

lemma import_loop_db:
  assumes "import_loop pf pn now tot i rows s = Inr s'" and "durable s = live s"
  shows "live s' = live s \<and> durable s' = live s"
  using assms
proof (induction rows arbitrary: i s)
  case Nil
  then show ?case by simp
next
  case (Cons row rest)
  from Cons.prems(1) obtain s1 r b where
    bb: "begin_batch tot i s = Inr s1"
    and b: "batch s1 = Some b"
    and rec: "import_loop pf pn now tot (Suc i) rest
                (s1\<lparr>batch := Some (b @ [r]), inserted := inserted s1 + 1\<rparr>) = Inr s'"
    by (auto split: sum.splits option.splits)
  from begin_batch_Inr(1,2)[OF bb] Cons.prems(2)
  have "live s1 = live s" "durable s1 = live s1" by auto
  with Cons.IH[OF rec] show ?case by simp
qed

lemma import_loop_db_Inl:
  assumes "import_loop pf pn now tot i rows s = Inl (e, s')" and "durable s = live s"
  shows "live s' = live s \<and> durable s' = live s"
  using assms
proof (induction rows arbitrary: i s)
  case Nil
  then show ?case by simp
next
  case (Cons row rest)
  show ?case
  proof (cases "begin_batch tot i s")
    case (Inl p)
    with Cons.prems(1) have "begin_batch tot i s = Inl (e, s')" by simp
    from begin_batch_Inl(2,3)[OF this] Cons.prems(2) show ?thesis by auto
  next
    case (Inr s1)
    from begin_batch_Inr(1,2)[OF Inr] Cons.prems(2)
    have s1: "live s1 = live s" "durable s1 = live s1" by auto
    show ?thesis
    proof (cases "make_record pf pn (now (2 * i)) (now (2 * i + 1)) row")
      case (Inl e')
      with Inr Cons.prems(1) have "s' = s1" by simp
      with s1 show ?thesis by simp
    next
      case r: (Inr r)
      show ?thesis
      proof (cases "batch s1")
        case None
        with Inr r Cons.prems(1) have "s' = s1" by simp
        with s1 show ?thesis by simp
      next
        case (Some b)
        with Inr r Cons.prems(1) have
          "import_loop pf pn now tot (Suc i) rest
             (s1\<lparr>batch := Some (b @ [r]), inserted := inserted s1 + 1\<rparr>) = Inl (e, s')"
          by simp
        from Cons.IH[OF this] s1 show ?thesis by simp
      qed
    qed
  qed
qed

lemma import_loop_fields:
  assumes "import_loop pf pn now tot i rows s = Inr s'"
  shows "inserted s' = inserted s + length rows"
  using assms
proof (induction rows arbitrary: i s)
  case Nil
  then show ?case by simp
next
  case (Cons row rest)
  from Cons.prems(1) obtain s1 r b where
    bb: "begin_batch tot i s = Inr s1"
    and rec: "import_loop pf pn now tot (Suc i) rest
                (s1\<lparr>batch := Some (b @ [r]), inserted := inserted s1 + 1\<rparr>) = Inr s'"
    by (auto split: sum.splits option.splits)
  from Cons.IH[OF rec] begin_batch_Inr(3)[OF bb] show ?case by simp
qed

lemma import_loop_batch_length:
  assumes "import_loop pf pn now tot i rows s = Inr s'"
    and "rows \<noteq> []"
    and "i mod batch_size \<noteq> 0 \<Longrightarrow> \<exists>b. batch s = Some b \<and> length b = i mod batch_size"
  shows "\<exists>b. batch s' = Some b \<and> length b = (i + length rows - 1) mod batch_size + 1"
  using assms
proof (induction rows arbitrary: i s)
  case Nil
  then show ?case by simp
next
  case (Cons row rest)
  from Cons.prems(1) obtain s1 r b where
    bb: "begin_batch tot i s = Inr s1"
    and b: "batch s1 = Some b"
    and rec: "import_loop pf pn now tot (Suc i) rest
                (s1\<lparr>batch := Some (b @ [r]), inserted := inserted s1 + 1\<rparr>) = Inr s'"
    by (auto split: sum.splits option.splits)
  let ?s2 = "s1\<lparr>batch := Some (b @ [r]), inserted := inserted s1 + 1\<rparr>"
  have len: "length b = i mod batch_size"
    using begin_batch_Inr(4)[OF bb] b Cons.prems(3) by (auto split: if_splits)
  show ?case
  proof (cases "rest = []")
    case True
    with rec have "s' = ?s2" by simp
    with len show ?thesis by (simp add: True)
  next
    case False
    have "\<exists>b'. batch s' = Some b' \<and> length b' = (Suc i + length rest - 1) mod batch_size + 1"
    proof (rule Cons.IH[OF rec False])
      assume "Suc i mod batch_size \<noteq> 0"
      then have "Suc i mod batch_size = Suc (i mod batch_size)"
        by (simp add: mod_Suc split: if_splits)
      with len show "\<exists>b'. batch ?s2 = Some b' \<and> length b' = Suc i mod batch_size" by simp
    qed
    then show ?thesis by simp
  qed
qed

lemma import_loop_batch_all:
  assumes "import_loop pf pn now tot i rows s = Inr s'"
    and "\<And>b r. batch s = Some b \<Longrightarrow> r \<in> set b \<Longrightarrow> P r"
    and "\<And>row t1 t2 r. row \<in> set rows \<Longrightarrow> make_record pf pn t1 t2 row = Inr r \<Longrightarrow> P r"
    and "batch s' = Some b'" and "r' \<in> set b'"
  shows "P r'"
  using assms
proof (induction rows arbitrary: i s)
  case Nil
  then show ?case by auto
next
  case (Cons row rest)
  from Cons.prems(1) obtain s1 r b where
    bb: "begin_batch tot i s = Inr s1"
    and mr: "make_record pf pn (now (2 * i)) (now (2 * i + 1)) row = Inr r"
    and b: "batch s1 = Some b"
    and rec: "import_loop pf pn now tot (Suc i) rest
                (s1\<lparr>batch := Some (b @ [r]), inserted := inserted s1 + 1\<rparr>) = Inr s'"
    by (auto split: sum.splits option.splits)
  have "b = [] \<or> batch s = Some b"
    using begin_batch_Inr(4)[OF bb] b by (auto split: if_splits)
  then have old: "\<And>x. x \<in> set b \<Longrightarrow> P x"
    using Cons.prems(2) by fastforce
  have new: "P r" using Cons.prems(3)[OF _ mr] by simp
  show ?case
  proof (rule Cons.IH[OF rec _ _ Cons.prems(4,5)])
    fix c x
    assume "batch (s1\<lparr>batch := Some (b @ [r]), inserted := inserted s1 + 1\<rparr>) = Some c"
      and "x \<in> set c"
    with old new show "P x" by auto
  next
    fix rw t1 t2 x
    assume "rw \<in> set rest" and "make_record pf pn t1 t2 rw = Inr x"
    then show "P x" using Cons.prems(3)[of rw t1 t2 x] by simp
  qed
qed

lemma make_record_isl:
  "isl (make_record pf pn t1 t2 row) = isl (make_record pf pn u1 u2 row)"
  by (simp add: make_record_def split: sum.splits)

lemma import_loop_ok:
  assumes "0 < tot"
    and "\<And>row. row \<in> set rows \<Longrightarrow> \<not> isl (make_record pf pn [] [] row)"
    and "i mod batch_size \<noteq> 0 \<Longrightarrow> batch s \<noteq> None"
  shows "\<exists>s'. import_loop pf pn now tot i rows s = Inr s'"
  using assms(2,3)
proof (induction rows arbitrary: i s)
  case Nil
  then show ?case by simp
next
  case (Cons row rest)
  from begin_batch_total[OF assms(1)] obtain s1 where bb: "begin_batch tot i s = Inr s1"
    by blast
  have "\<not> isl (make_record pf pn (now (2 * i)) (now (2 * i + 1)) row)"
    using Cons.prems(1)[of row] make_record_isl[of pf pn "[]" "[]" row] by simp
  then obtain r where mr: "make_record pf pn (now (2 * i)) (now (2 * i + 1)) row = Inr r"
    by (cases "make_record pf pn (now (2 * i)) (now (2 * i + 1)) row") auto
  have "batch s1 \<noteq> None"
    using begin_batch_Inr(4)[OF bb] Cons.prems(2) by (auto split: if_splits)
  then obtain b where b: "batch s1 = Some b" by auto
  have "\<exists>s'. import_loop pf pn now tot (Suc i) rest
           (s1\<lparr>batch := Some (b @ [r]), inserted := inserted s1 + 1\<rparr>) = Inr s'"
    by (rule Cons.IH) (use Cons.prems(1) in auto)
  with bb mr b show ?case by simp
qed

lemma import_loop_fail:
  assumes "row \<in> set rows" and "isl (make_record pf pn [] [] row)"
  shows "\<exists>e s'. import_loop pf pn now tot i rows s = Inl (e, s')"
  using assms(1)
proof (induction rows arbitrary: i s)
  case Nil
  then show ?case by simp
next
  case (Cons x rest)
  show ?case
  proof (cases "begin_batch tot i s")
    case (Inl p)
    then show ?thesis by (cases p) simp
  next
    case bb: (Inr s1)
    show ?thesis
    proof (cases "make_record pf pn (now (2 * i)) (now (2 * i + 1)) x")
      case (Inl e)
      with bb show ?thesis by simp
    next
      case mr: (Inr r)
      then have "\<not> isl (make_record pf pn [] [] x)"
        using make_record_isl[of pf pn "[]" "[]" x "now (2 * i)" "now (2 * i + 1)"] by simp
      with Cons.prems assms(2) have mem: "row \<in> set rest" by auto
      show ?thesis
      proof (cases "batch s1")
        case None
        with bb mr show ?thesis by simp
      next
        case (Some b)
        from Cons.IH[OF mem] obtain e s' where
          "import_loop pf pn now tot (Suc i) rest
             (s1\<lparr>batch := Some (b @ [r]), inserted := inserted s1 + 1\<rparr>) = Inl (e, s')"
          by blast
        with bb mr Some show ?thesis by simp
      qed
    qed
  qed
qed

subsection \<open>Inserting rows\<close>

lemma fold_max_ge: "b \<le> fold max xs (b::nat)"
  by (induction xs arbitrary: b) (auto intro: order_trans[OF max.cobounded2])

lemma fold_max_mem: "x \<in> set xs \<Longrightarrow> x \<le> fold max xs (b::nat)"
proof (induction xs arbitrary: b)
  case Nil
  then show ?case by simp
next
  case (Cons a xs)
  show ?case
  proof (cases "x = a")
    case True
    have "a \<le> max a b" by simp
    also have "\<dots> \<le> fold max xs (max a b)" by (rule fold_max_ge)
    finally show ?thesis using True by simp
  next
    case False
    with Cons show ?thesis by simp
  qed
qed

lemma next_rowid_fresh: "next_rowid d \<notin> fst ` set (instruments d)"
proof
  assume "next_rowid d \<in> fst ` set (instruments d)"
  then have "next_rowid d \<in> set (map fst (instruments d))" by simp
  from fold_max_mem[OF this, of "case sqlite_sequence d of None \<Rightarrow> 0 | Some n \<Rightarrow> n"]
  show False by (simp add: next_rowid_def)
qed

lemma insert_instrument_simps [simp]:
  "instruments (insert_instrument r d) = instruments d @ [(next_rowid d, r)]"
  "instruments_fts (insert_instrument r d) = instruments_fts d"
  "instruments_refresh_log (insert_instrument r d) = instruments_refresh_log d"
  by (simp_all add: insert_instrument_def Let_def)

lemma executemany_tables [simp]:
  "instruments_fts (executemany rs d) = instruments_fts d"
  "instruments_refresh_log (executemany rs d) = instruments_refresh_log d"
  by (induction rs arbitrary: d) (simp_all add: executemany_def)

lemma executemany_rows:
  "map snd (instruments (executemany rs d)) = map snd (instruments d) @ rs"
  by (induction rs arbitrary: d) (simp_all add: executemany_def)

lemma executemany_distinct:
  "distinct (map fst (instruments d)) \<Longrightarrow> distinct (map fst (instruments (executemany rs d)))"
proof (induction rs arbitrary: d)
  case Nil
  then show ?case by (simp add: executemany_def)
next
  case (Cons r rs)
  have "distinct (map fst (instruments (insert_instrument r d)))"
    using Cons.prems next_rowid_fresh[of d] by simp
  from Cons.IH[OF this] show ?case by (simp add: executemany_def)
qed

lemma executemany_length:
  "length (instruments (executemany rs d)) = length (instruments d) + length rs"
  using arg_cong[OF executemany_rows[of rs d], of length] by simp

subsection \<open>The summary\<close>

lemma print_rows_db:
  "print_rows fmt rows s = Inr s' \<Longrightarrow> live s' = live s \<and> durable s' = durable s"
  by (induction rows arbitrary: s) (auto split: sum.splits)

lemma print_rows_db_Inl:
  "print_rows fmt rows s = Inl (e, s') \<Longrightarrow> live s' = live s \<and> durable s' = durable s"
  by (induction rows arbitrary: s) (auto split: sum.splits)

lemma print_rows_ok:
  "(\<And>row. row \<in> set rows \<Longrightarrow> \<not> isl (fmt row)) \<Longrightarrow> \<exists>s'. print_rows fmt rows s = Inr s'"
proof (induction rows arbitrary: s)
  case Nil
  then show ?case by simp
next
  case (Cons row rest)
  from Cons.prems[of row] obtain l where "fmt row = Inr l" by (cases "fmt row") auto
  moreover have "\<exists>s'. print_rows fmt rest (print_line l s) = Inr s'"
    by (rule Cons.IH) (use Cons.prems in auto)
  ultimately show ?case by simp
qed

lemma print_rows_fail:
  assumes "row \<in> set rows" and "isl (fmt row)"
    and "\<forall>x e. fmt x = Inl e \<longrightarrow> e = TypeError"
  shows "\<exists>s'. print_rows fmt rows s = Inl (TypeError, s')"
  using assms(1)
proof (induction rows arbitrary: s)
  case Nil
  then show ?case by simp
next
  case (Cons x rest)
  show ?case
  proof (cases "fmt x")
    case (Inl e)
    with assms(3) show ?thesis by auto
  next
    case (Inr l)
    with Cons.prems assms(2) have "row \<in> set rest" by auto
    from Cons.IH[OF this] Inr show ?thesis by simp
  qed
qed

lemma sample_line_isl:
  "isl (sample_line (a, b, c, d)) \<longleftrightarrow> a = None \<or> b = None \<or> c = None"
  by (simp add: sample_line_def fmt_s_def split: option.splits)

lemma sample_line_error: "\<forall>row e. sample_line row = Inl e \<longrightarrow> e = TypeError"
  by (auto simp: sample_line_def fmt_s_def split: prod.splits option.splits)

lemma breakdown_line_isl: "isl (breakdown_line (k, n)) \<longleftrightarrow> k = None"
  by (simp add: breakdown_line_def fmt_s_def split: option.splits)

lemma breakdown_line_error: "\<forall>row e. breakdown_line row = Inl e \<longrightarrow> e = TypeError"
  by (auto simp: breakdown_line_def fmt_s_def split: prod.splits option.splits)

lemma group_count_keys: "fst ` set (group_count col d) = col ` snd ` set (instruments d)"
  by (force simp: group_count_def Let_def image_iff)

subsection \<open>The transform\<close>

lemma float_of_cases:
  "float_of pf x =
     (case x of None \<Rightarrow> Inr None
      | Some s \<Rightarrow> if s = ''-1'' \<or> s = [] then Inr None
                  else (case pf s of None \<Rightarrow> Inl ValueError | Some v \<Rightarrow> Inr (Some v)))"
  by (simp add: float_of_def split: option.splits)


lemma make_record_fields:
  assumes "make_record pf pn t1 t2 row = Inr r"
  shows "float_of pf (row ''strike'') = Inr (strike r)"
    and "lotsize_of pn (row ''lotsize'') = Inr (lotsize r)"
    and "float_of pf (row ''tick_size'') = Inr (tick_size r)"
    and "symbol r = or_none (row ''symbol'')"
    and "name r = or_none (row ''name'')"
    and "exchange r = or_none (row ''exchange'')"
    and "instrumenttype r = or_none (row ''instrumenttype'')"
    and "expiry r = expiry_of (row ''expiry'')"
  using assms by (auto simp: make_record_def split: sum.splits)





subsection \<open>The run as a whole\<close>

lemma clear_instruments_simps [simp]:
  "live (clear_instruments s) = delete_instruments (live s)"
  "durable (clear_instruments s) = delete_instruments (live s)"
  "batch (clear_instruments s) = batch s"
  by (simp_all add: clear_instruments_def Let_def)

lemma prescan_simps [simp]:
  "live (prescan rows s) = live s"
  "durable (prescan rows s) = durable s"
  "batch (prescan rows s) = batch s"
  "inserted (prescan rows s) = 0"
  by (simp_all add: prescan_def Let_def)

lemma start_simps [simp]:
  "live (start d) = d" "durable (start d) = d" "batch (start d) = None" "out (start d) = []"
  by (simp_all add: start_def)

text \<open>
  C9. On a file with a header and no data row the loop body never runs, \<^verbatim>\<open>batch\<close> is
  still unbound when \<^verbatim>\<open>if batch:\<close> reads it, and the run ends with
  \<^verbatim>\<open>UnboundLocalError\<close> and exit status 1; by then the instruments table has been
  emptied and the deletion committed, and nothing else of the database has changed.
\<close>

theorem header_only_csv:
  "\<exists>s. import_instruments pf pn now [] (start d) = Inl (UnboundLocalError, s)
       \<and> main pf pn now [] d =
           (1, s\<lparr>out := out s @ [Stderr (ImportFailed UnboundLocalError),
                                 Stderr (Traceback UnboundLocalError)]\<rparr>)
       \<and> durable s = delete_instruments d
       \<and> instruments (durable s) = []"
  by (simp add: main_def import_instruments_def load_instruments_def import_csv_def
      final_batch_def Let_def delete_instruments_def)

lemma delete_instruments_simps [simp]:
  "instruments (delete_instruments d) = []"
  "instruments_fts (delete_instruments d) = instruments_fts d"
  "instruments_refresh_log (delete_instruments d) = instruments_refresh_log d"
  by (simp_all add: delete_instruments_def)

lemma delete_fts_simps [simp]:
  "instruments (delete_fts d) = instruments d"
  "instruments_fts (delete_fts d) = []"
  "instruments_refresh_log (delete_fts d) = instruments_refresh_log d"
  by (simp_all add: delete_fts_def)

lemma insert_fts_simps [simp]:
  "instruments (insert_fts d) = instruments d"
  "instruments_fts (insert_fts d) =
     instruments_fts d @ map (\<lambda>(i, r). (i, symbol r, name r)) (instruments d)"
  "instruments_refresh_log (insert_fts d) = instruments_refresh_log d"
  by (simp_all add: insert_fts_def)

lemma insert_refresh_log_simps [simp]:
  "instruments (insert_refresh_log c t1 t2 d) = instruments d"
  "instruments_fts (insert_refresh_log c t1 t2 d) = instruments_fts d"
  "instruments_refresh_log (insert_refresh_log c t1 t2 d) =
     instruments_refresh_log d @
       [\<lparr>log_exchange = ''CSV_UPLOAD'', status = ''completed'', instrument_count = c,
         refresh_started_at = t1, refresh_completed_at = t2\<rparr>]"
  by (simp_all add: insert_refresh_log_def)

lemma rebuild_fts_simps [simp]:
  "live (rebuild_fts s) = insert_fts (delete_fts (live s))"
  "durable (rebuild_fts s) = insert_fts (delete_fts (live s))"
  by (simp_all add: rebuild_fts_def)

lemma final_batch_Inr:
  assumes "final_batch s = Inr s'"
  obtains b where "batch s = Some b"
    and "b \<noteq> [] \<Longrightarrow> live s' = executemany b (live s) \<and> durable s' = live s'"
    and "b = [] \<Longrightarrow> s' = s"
  using assms by (auto simp: final_batch_def split: option.splits if_splits)

lemma final_batch_Inl:
  assumes "final_batch s = Inl (e, s')"
  shows "e = UnboundLocalError \<and> s' = s \<and> batch s = None"
  using assms by (auto simp: final_batch_def split: option.splits if_splits)

lemma import_csv_Inr:
  assumes "import_csv pf pn now rows s = Inr s'" and "batch s = None"
    and "durable s = live s"
  obtains b where "rows \<noteq> []" and "b \<noteq> []"
    and "length b = (length rows - 1) mod batch_size + 1"
    and "live s' = executemany b (live s)" and "durable s' = live s'"
    and "\<And>r. r \<in> set b \<Longrightarrow> \<exists>row\<in>set rows. \<exists>t1 t2. make_record pf pn t1 t2 row = Inr r"
proof -
  let ?s3 = "prescan rows s"
  from assms(1) obtain s4 where
    loop: "import_loop pf pn now (length rows) 0 rows ?s3 = Inr s4"
    and fb: "final_batch s4 = Inr s'"
    by (auto simp: import_csv_def Let_def split: sum.splits)
  have b3: "batch ?s3 = None" using assms(2) by simp
  have ne: "rows \<noteq> []"
  proof
    assume "rows = []"
    with loop have "s4 = ?s3" by simp
    with fb b3 show False by (simp add: final_batch_def)
  qed
  from import_loop_batch_length[OF loop ne] obtain b where
    b: "batch s4 = Some b" and len: "length b = (length rows - 1) mod batch_size + 1"
    by auto
  from len have bne: "b \<noteq> []" by auto
  have "durable ?s3 = live ?s3" using assms(3) by simp
  from import_loop_db[OF loop this] have live4: "live s4 = live s" by simp
  from fb b bne have "live s' = executemany b (live s4)" "durable s' = live s'"
    by (auto simp: final_batch_def)
  with live4 have db: "live s' = executemany b (live s)" "durable s' = live s'" by simp_all
  have src: "\<exists>row\<in>set rows. \<exists>t1 t2. make_record pf pn t1 t2 row = Inr r" if "r \<in> set b" for r
  proof (rule import_loop_batch_all[OF loop _ _ b that,
        where P = "\<lambda>r. \<exists>row\<in>set rows. \<exists>t1 t2. make_record pf pn t1 t2 row = Inr r"])
    fix c x assume "batch ?s3 = Some c"
    with b3 show "\<exists>row\<in>set rows. \<exists>t1 t2. make_record pf pn t1 t2 row = Inr x" by simp
  next
    fix row t1 t2 x
    assume "row \<in> set rows" and "make_record pf pn t1 t2 row = Inr x"
    then show "\<exists>row\<in>set rows. \<exists>t1 t2. make_record pf pn t1 t2 row = Inr x" by blast
  qed
  from that[OF ne bne len db src] show ?thesis .
qed

lemma import_csv_Inl:
  assumes "import_csv pf pn now rows s = Inl (e, s')" and "durable s = live s"
  shows "live s' = live s \<and> durable s' = live s"
proof -
  let ?s3 = "prescan rows s"
  have d3: "durable ?s3 = live ?s3" using assms(2) by simp
  show ?thesis
  proof (cases "import_loop pf pn now (length rows) 0 rows ?s3")
    case (Inl p)
    with assms(1) have "import_loop pf pn now (length rows) 0 rows ?s3 = Inl (e, s')"
      by (simp add: import_csv_def Let_def)
    from import_loop_db_Inl[OF this d3] show ?thesis by simp
  next
    case (Inr s4)
    with assms(1) have "final_batch s4 = Inl (e, s')"
      by (simp add: import_csv_def Let_def)
    from final_batch_Inl[OF this] import_loop_db[OF Inr d3] show ?thesis by simp
  qed
qed

lemma import_csv_ok:
  assumes "rows \<noteq> []"
    and "\<And>row. row \<in> set rows \<Longrightarrow> \<not> isl (make_record pf pn [] [] row)"
  shows "\<exists>s'. import_csv pf pn now rows s = Inr s'"
proof -
  let ?s3 = "prescan rows s"
  from assms(1) have "0 < length rows" by simp
  from import_loop_ok[OF this assms(2), of rows 0 ?s3 now] obtain s4 where
    loop: "import_loop pf pn now (length rows) 0 rows ?s3 = Inr s4"
    by auto
  from import_loop_batch_length[OF loop assms(1)] obtain b where "batch s4 = Some b"
    by auto
  then have "\<exists>s'. final_batch s4 = Inr s'" by (simp add: final_batch_def)
  with loop show ?thesis by (simp add: import_csv_def Let_def)
qed

lemma import_csv_fail:
  assumes "row \<in> set rows" and "isl (make_record pf pn [] [] row)"
  shows "\<exists>e s'. import_csv pf pn now rows s = Inl (e, s')"
proof -
  from import_loop_fail[OF assms] obtain e s' where
    "import_loop pf pn now (length rows) 0 rows (prescan rows s) = Inl (e, s')"
    by blast
  then show ?thesis by (simp add: import_csv_def Let_def)
qed

lemma load_instruments_Inr:
  assumes "load_instruments pf pn now rows (start d) = Inr (c, f, s)"
  obtains b s1 where "rows \<noteq> []" and "b \<noteq> []"
    and "length b = (length rows - 1) mod batch_size + 1"
    and "c = length b"
    and "import_csv pf pn now rows (clear_instruments (start d)) = Inr s1"
    and "live s1 = executemany b (delete_instruments d)"
    and "live s = insert_refresh_log c (now (2 * length rows)) (now (2 * length rows + 1))
                    (insert_fts (delete_fts (live s1)))"
    and "durable s = live s"
    and "f = count_fts (live s)"
    and "\<And>r. r \<in> set b \<Longrightarrow> \<exists>row\<in>set rows. \<exists>t1 t2. make_record pf pn t1 t2 row = Inr r"
proof -
  from assms obtain s1 where
    csv: "import_csv pf pn now rows (clear_instruments (start d)) = Inr s1"
    and c: "c = count_instruments (live s1)"
    and f: "f = count_fts (insert_fts (delete_fts (live s1)))"
    and live: "live s = insert_refresh_log c (now (2 * length rows)) (now (2 * length rows + 1))
                 (insert_fts (delete_fts (live s1)))"
    and dur: "durable s = live s"
    by (auto simp: load_instruments_def Let_def split: sum.splits)
  from csv obtain b where b: "rows \<noteq> []" "b \<noteq> []"
    "length b = (length rows - 1) mod batch_size + 1"
    "live s1 = executemany b (delete_instruments d)"
    "\<And>r. r \<in> set b \<Longrightarrow> \<exists>row\<in>set rows. \<exists>t1 t2. make_record pf pn t1 t2 row = Inr r"
    by (rule import_csv_Inr) simp_all
  have len: "c = length b"
    using c b(4) executemany_length[of b "delete_instruments d"]
    by (simp add: count_instruments_def)
  show ?thesis
    by (rule that[OF b(1,2,3) len csv b(4) live dur _ b(5)])
      (use live f in \<open>simp_all add: count_fts_def\<close>)
qed

lemma load_instruments_Inl:
  assumes "load_instruments pf pn now rows (start d) = Inl (e, s)"
  shows "live s = delete_instruments d \<and> durable s = delete_instruments d"
proof -
  from assms have "import_csv pf pn now rows (clear_instruments (start d)) = Inl (e, s)"
    by (auto simp: load_instruments_def Let_def split: sum.splits)
  from import_csv_Inl[OF this] show ?thesis by simp
qed

lemma load_instruments_ok:
  assumes "rows \<noteq> []"
    and "\<And>row. row \<in> set rows \<Longrightarrow> \<not> isl (make_record pf pn [] [] row)"
  shows "\<exists>c f s'. load_instruments pf pn now rows s = Inr (c, f, s')"
proof -
  from import_csv_ok[OF assms, of now "clear_instruments s"] obtain s1 where
    "import_csv pf pn now rows (clear_instruments s) = Inr s1" by blast
  then show ?thesis by (simp add: load_instruments_def Let_def)
qed

lemma load_instruments_fail:
  assumes "row \<in> set rows" and "isl (make_record pf pn [] [] row)"
  shows "\<exists>e s'. load_instruments pf pn now rows s = Inl (e, s')"
proof -
  from import_csv_fail[OF assms, of now "clear_instruments s"] obtain e s' where
    "import_csv pf pn now rows (clear_instruments s) = Inl (e, s')" by blast
  then show ?thesis by (simp add: load_instruments_def)
qed

lemma sample_line_isl_case:
  "isl (sample_line row) \<longleftrightarrow>
     (case row of (c0, c1, c2, c3) \<Rightarrow> c0 = None \<or> c1 = None \<or> c2 = None)"
  by (simp add: sample_line_isl split: prod.splits)

lemma breakdown_line_isl_fst: "isl (breakdown_line row) \<longleftrightarrow> fst row = None"
  by (cases row) (simp add: breakdown_line_isl)

lemma show_summary_fail:
  assumes "null_in_summary (live s)"
  shows "\<exists>s'. show_summary s = Inl (TypeError, s') \<and> live s' = live s \<and> durable s' = durable s"
proof -
  let ?p1 = "print_rows sample_line (select_sample (live s))
               (print_line (Text ''Sample instruments:'') s)"
  show ?thesis
  proof (cases ?p1)
    case (Inl p)
    obtain e s' where p: "p = (e, s')" by (cases p)
    have "e = TypeError"
    proof -
      from Inl p have "\<not> (\<forall>row\<in>set (select_sample (live s)). \<not> isl (sample_line row))"
        using print_rows_ok[of "select_sample (live s)" sample_line
            "print_line (Text ''Sample instruments:'') s"] by auto
      then obtain row where "row \<in> set (select_sample (live s))" "isl (sample_line row)"
        by blast
      from print_rows_fail[where fmt = sample_line
            and s = "print_line (Text ''Sample instruments:'') s", OF this sample_line_error] Inl p
      show ?thesis by auto
    qed
    with Inl p print_rows_db_Inl[of sample_line "select_sample (live s)"
        "print_line (Text ''Sample instruments:'') s" e s']
    show ?thesis by (simp add: show_summary_def)
  next
    case s1: (Inr s1)
    from print_rows_db[OF s1] have db1: "live s1 = live s" "durable s1 = durable s"
      by simp_all
    have no_sample: "\<not> list_ex (\<lambda>(c0, c1, c2, c3). c0 = None \<or> c1 = None \<or> c2 = None)
                        (select_sample (live s))"
    proof
      assume "list_ex (\<lambda>(c0, c1, c2, c3). c0 = None \<or> c1 = None \<or> c2 = None)
                (select_sample (live s))"
      then obtain row where row: "row \<in> set (select_sample (live s))"
        and "case row of (c0, c1, c2, c3) \<Rightarrow> c0 = None \<or> c1 = None \<or> c2 = None"
        by (auto simp: list_ex_iff)
      then have "isl (sample_line row)" by (simp add: sample_line_isl_case)
      from print_rows_fail[where fmt = sample_line
            and s = "print_line (Text ''Sample instruments:'') s", OF row this sample_line_error] s1
      show False by auto
    qed
    let ?p2 = "print_rows breakdown_line (select_by_exchange (live s1))
                 (print_line (Text ''Instruments by exchange (top 10):'') s1)"
    show ?thesis
    proof (cases "list_ex (\<lambda>(k, n). k = None) (select_by_exchange (live s))")
      case True
      then obtain row where row: "row \<in> set (select_by_exchange (live s1))"
        and "fst row = None"
        using db1 by (auto simp: list_ex_iff)
      then have "isl (breakdown_line row)" by (simp add: breakdown_line_isl_fst)
      from print_rows_fail[where fmt = breakdown_line, OF row this breakdown_line_error] obtain s' where
        f: "?p2 = Inl (TypeError, s')" by blast
      from print_rows_db_Inl[OF f] db1 s1 f show ?thesis
        by (simp add: show_summary_def)
    next
      case False
      with assms no_sample have "list_ex (\<lambda>(k, n). k = None) (select_by_type (live s))"
        by (simp add: null_in_summary_def)
      then obtain row0 where "row0 \<in> set (select_by_type (live s))" and "fst row0 = None"
        by (auto simp: list_ex_iff)
      have "\<And>row. row \<in> set (select_by_exchange (live s1)) \<Longrightarrow> \<not> isl (breakdown_line row)"
      proof -
        fix row assume "row \<in> set (select_by_exchange (live s1))"
        with False db1 have "fst row \<noteq> None" by (auto simp: list_ex_iff)
        then show "\<not> isl (breakdown_line row)" by (simp add: breakdown_line_isl_fst)
      qed
      from print_rows_ok[where fmt = breakdown_line and rows = "select_by_exchange (live s1)", OF this] obtain s2 where s2: "?p2 = Inr s2" by blast
      from print_rows_db[OF s2] db1 have db2: "live s2 = live s" "durable s2 = durable s"
        by simp_all
      from \<open>row0 \<in> set (select_by_type (live s))\<close> db2
      have row: "row0 \<in> set (select_by_type (live s2))" by simp
      from \<open>fst row0 = None\<close> have "isl (breakdown_line row0)"
        by (simp add: breakdown_line_isl_fst)
      from print_rows_fail[where fmt = breakdown_line, OF row this breakdown_line_error] obtain s' where
        f: "print_rows breakdown_line (select_by_type (live s2))
              (print_line (Text ''Instruments by type:'') s2) = Inl (TypeError, s')"
        by blast
      from print_rows_db_Inl[OF f] db2 s1 s2 f show ?thesis
        by (simp add: show_summary_def)
    qed
  qed
qed

lemma show_summary_ok:
  assumes "\<not> null_in_summary (live s)"
  shows "\<exists>s'. show_summary s = Inr s' \<and> live s' = live s \<and> durable s' = durable s"
proof -
  have "\<And>row. row \<in> set (select_sample (live s)) \<Longrightarrow> \<not> isl (sample_line row)"
  proof -
    fix row assume "row \<in> set (select_sample (live s))"
    with assms show "\<not> isl (sample_line row)"
      by (auto simp: null_in_summary_def list_ex_iff sample_line_isl_case)
  qed
  from print_rows_ok[where fmt = sample_line and rows = "select_sample (live s)", OF this] obtain s1 where
    s1: "print_rows sample_line (select_sample (live s))
           (print_line (Text ''Sample instruments:'') s) = Inr s1" by blast
  from print_rows_db[OF s1] have db1: "live s1 = live s" "durable s1 = durable s"
    by simp_all
  have "\<And>row. row \<in> set (select_by_exchange (live s1)) \<Longrightarrow> \<not> isl (breakdown_line row)"
  proof -
    fix row assume "row \<in> set (select_by_exchange (live s1))"
    with assms db1 show "\<not> isl (breakdown_line row)"
      by (auto simp: null_in_summary_def list_ex_iff breakdown_line_isl_fst)
  qed
  from print_rows_ok[where fmt = breakdown_line and rows = "select_by_exchange (live s1)", OF this] obtain s2 where
    s2: "print_rows breakdown_line (select_by_exchange (live s1))
           (print_line (Text ''Instruments by exchange (top 10):'') s1) = Inr s2" by blast
  from print_rows_db[OF s2] db1 have db2: "live s2 = live s" "durable s2 = durable s"
    by simp_all
  have "\<And>row. row \<in> set (select_by_type (live s2)) \<Longrightarrow> \<not> isl (breakdown_line row)"
  proof -
    fix row assume "row \<in> set (select_by_type (live s2))"
    with assms db2 show "\<not> isl (breakdown_line row)"
      by (auto simp: null_in_summary_def list_ex_iff breakdown_line_isl_fst)
  qed
  from print_rows_ok[where fmt = breakdown_line and rows = "select_by_type (live s2)", OF this] obtain s3 where
    s3: "print_rows breakdown_line (select_by_type (live s2))
           (print_line (Text ''Instruments by type:'') s2) = Inr s3" by blast
  from print_rows_db[OF s3] db2 s1 s2 s3 show ?thesis
    by (simp add: show_summary_def)
qed

lemma import_instruments_Inr:
  assumes "import_instruments pf pn now rows s0 = Inr s'"
  obtains c f s where "load_instruments pf pn now rows s0 = Inr (c, f, s)"
    and "\<not> null_in_summary (live s)" and "live s' = live s" and "durable s' = durable s"
proof -
  from assms obtain c f s s2 where
    load: "load_instruments pf pn now rows s0 = Inr (c, f, s)"
    and sum: "show_summary s = Inr s2"
    and s': "s' = print_line (Text ''Fast symbol search is now available.'')
               (print_line (Text ''Instruments cache is now populated!'')
                 (print_line (SummaryFts f) (print_line (SummaryInstruments c)
                   (print_line (Text ''INSTRUMENTS IMPORT COMPLETED SUCCESSFULLY!'') s2))))"
    by (auto simp: import_instruments_def split: sum.splits)
  have nn: "\<not> null_in_summary (live s)"
    using show_summary_fail[of s] sum by auto
  from show_summary_ok[OF nn] sum have "live s2 = live s" "durable s2 = durable s"
    by auto
  with s' have "live s' = live s" "durable s' = durable s" by simp_all
  from that[OF load nn this] show ?thesis .
qed


lemma import_instruments_ok:
  assumes "load_instruments pf pn now rows s0 = Inr (c, f, s)"
    and "\<not> null_in_summary (live s)"
  shows "\<exists>s'. import_instruments pf pn now rows s0 = Inr s'
           \<and> live s' = live s \<and> durable s' = durable s"
  using show_summary_ok[OF assms(2)] assms(1) by (auto simp: import_instruments_def)

lemma main_exit_0:
  "main pf pn now rows d = (0, s) \<longleftrightarrow> import_instruments pf pn now rows (start d) = Inr s"
  by (auto simp: main_def split: sum.splits)

lemma main_success:
  assumes "main pf pn now rows d = (0, s)"
  obtains b s1 where "rows \<noteq> []" and "b \<noteq> []"
    and "length b = (length rows - 1) mod batch_size + 1"
    and "import_csv pf pn now rows (clear_instruments (start d)) = Inr s1"
    and "live s1 = executemany b (delete_instruments d)"
    and "durable s =
           insert_refresh_log (length b) (now (2 * length rows)) (now (2 * length rows + 1))
             (insert_fts (delete_fts (live s1)))"
    and "\<not> null_in_summary (durable s)"
    and "\<And>r. r \<in> set b \<Longrightarrow> \<exists>row\<in>set rows. \<exists>t1 t2. make_record pf pn t1 t2 row = Inr r"
proof -
  from assms have "import_instruments pf pn now rows (start d) = Inr s"
    by (simp add: main_exit_0)
  then obtain c f s0 where load: "load_instruments pf pn now rows (start d) = Inr (c, f, s0)"
    and nn: "\<not> null_in_summary (live s0)" and db: "live s = live s0" "durable s = durable s0"
    by (rule import_instruments_Inr)
  from load obtain b s1 where b: "rows \<noteq> []" "b \<noteq> []"
    "length b = (length rows - 1) mod batch_size + 1" "c = length b"
    "import_csv pf pn now rows (clear_instruments (start d)) = Inr s1"
    "live s1 = executemany b (delete_instruments d)"
    "live s0 = insert_refresh_log c (now (2 * length rows)) (now (2 * length rows + 1))
                 (insert_fts (delete_fts (live s1)))"
    "durable s0 = live s0"
    "\<And>r. r \<in> set b \<Longrightarrow> \<exists>row\<in>set rows. \<exists>t1 t2. make_record pf pn t1 t2 row = Inr r"
    by (rule load_instruments_Inr) blast
  show ?thesis
    by (rule that[OF b(1,2,3,5,6) _ _ b(9)]) (use b nn db in simp_all)
qed

text \<open>
  C4. After a run that ends with exit status 0, the index has as many rows as the
  instruments table and the same row identifiers, and it is exactly the projection
  (id, symbol, name) of the table, whatever it held before. The rebuild comes after the
  import: when lines 28 to 87 have finished, the table already has the contents it ends
  with and the index still has the contents it had before the run.
\<close>

theorem fts_rebuilt_after_import:
  assumes "main pf pn now rows d = (0, s)"
  shows "count_fts (durable s) = count_instruments (durable s)
       \<and> set (map fst (instruments_fts (durable s))) = set (map fst (instruments (durable s)))
       \<and> instruments_fts (durable s) =
           map (\<lambda>(i, r). (i, symbol r, name r)) (instruments (durable s))
       \<and> (\<exists>s1. import_csv pf pn now rows (clear_instruments (start d)) = Inr s1
              \<and> instruments (live s1) = instruments (durable s)
              \<and> instruments_fts (live s1) = instruments_fts d)"
proof -
  from assms obtain b s1 where
    csv: "import_csv pf pn now rows (clear_instruments (start d)) = Inr s1"
    and s1: "live s1 = executemany b (delete_instruments d)"
    and dur: "durable s =
           insert_refresh_log (length b) (now (2 * length rows)) (now (2 * length rows + 1))
             (insert_fts (delete_fts (live s1)))"
    by (rule main_success) blast
  have tab: "instruments (durable s) = instruments (live s1)"
    and fts: "instruments_fts (durable s) =
                map (\<lambda>(i, r). (i, symbol r, name r)) (instruments (live s1))"
    using dur by simp_all
  have ids: "map fst (instruments_fts (durable s)) = map fst (instruments (durable s))"
    unfolding fts tab by (simp add: case_prod_beta comp_def)
  have c1: "count_fts (durable s) = count_instruments (durable s)"
    using fts tab by (simp add: count_fts_def count_instruments_def)
  have c2: "set (map fst (instruments_fts (durable s))) = set (map fst (instruments (durable s)))"
    using ids by (rule arg_cong)
  have c3: "instruments_fts (durable s) =
              map (\<lambda>(i, r). (i, symbol r, name r)) (instruments (durable s))"
    using fts tab by simp
  have "instruments_fts (live s1) = instruments_fts d" using s1 by simp
  with csv tab have c4: "\<exists>s1. import_csv pf pn now rows (clear_instruments (start d)) = Inr s1
              \<and> instruments (live s1) = instruments (durable s)
              \<and> instruments_fts (live s1) = instruments_fts d"
    by auto
  from c1 c2 c3 c4 show ?thesis by blast
qed

text \<open>
  C5. A run that ends with exit status 0 leaves the refresh log as it was with one row
  added at the end: exchange \<open>CSV_UPLOAD\<close>, status \<open>completed\<close>, the number of rows of the
  instruments table at the end of the run, and two readings of the clock.
\<close>

theorem refresh_log_appended:
  fixes s :: "'f state"
  assumes "main pf pn now rows d = (0, s)"
  shows "instruments_refresh_log (durable s) =
           instruments_refresh_log d @
             [\<lparr>log_exchange = ''CSV_UPLOAD'', status = ''completed'',
               instrument_count = count_instruments (durable s),
               refresh_started_at = now (2 * length rows),
               refresh_completed_at = now (2 * length rows + 1)\<rparr>]"
proof -
  from assms obtain b s1 where
    s1: "live (s1 :: 'f state) = executemany b (delete_instruments d)"
    and dur: "durable s =
           insert_refresh_log (length b) (now (2 * length rows)) (now (2 * length rows + 1))
             (insert_fts (delete_fts (live s1)))"
    by (rule main_success) blast
  have "count_instruments (durable s) = length b"
    using dur s1 executemany_length[of b "delete_instruments d"]
    by (simp add: count_instruments_def)
  then show ?thesis using dur s1 by simp
qed


theorem fts_rebuilt_after_import_witness:
  "main float_example int_example clock_example three_rows stale_db = (0, three_rows_run)
   \<and> count_fts (durable three_rows_run) = 3
   \<and> count_instruments (durable three_rows_run) = 3
   \<and> set (map fst (instruments_fts (durable three_rows_run))) = {8, 9, 10}
   \<and> set (map fst (instruments (durable three_rows_run))) = {8, 9, 10}"
proof -
  have "fst (main float_example int_example clock_example three_rows stale_db) = 0"
    by code_simp
  then have m: "main float_example int_example clock_example three_rows stale_db
                  = (0, three_rows_run)"
    by (simp add: three_rows_run_def prod_eq_iff)
  have c: "count_instruments (durable three_rows_run) = 3"
    and i: "map fst (instruments (durable three_rows_run)) = [8, 9, 10]"
    by code_simp+
  from fts_rebuilt_after_import[OF m] c i m show ?thesis by auto
qed

theorem refresh_log_appended_witness:
  "main float_example int_example clock_example three_rows stale_db = (0, three_rows_run)
   \<and> instruments_refresh_log (durable three_rows_run) =
       instruments_refresh_log stale_db @
         [\<lparr>log_exchange = ''CSV_UPLOAD'', status = ''completed'', instrument_count = 3,
           refresh_started_at = clock_example 6, refresh_completed_at = clock_example 7\<rparr>]"
proof -
  have "fst (main float_example int_example clock_example three_rows stale_db) = 0"
    by code_simp
  then have m: "main float_example int_example clock_example three_rows stale_db
                  = (0, three_rows_run)"
    by (simp add: three_rows_run_def prod_eq_iff)
  have c: "count_instruments (durable three_rows_run) = 3"
    and l: "length three_rows = 3"
    by code_simp+
  from refresh_log_appended[OF m] c l m show ?thesis by simp
qed

lemma malformed_isl:
  assumes "malformed pf pn row"
  shows "isl (make_record pf pn t1 t2 row)"
proof -
  from assms consider
    s where "row ''strike'' = Some s" "s \<noteq> ''-1''" "s \<noteq> []" "pf s = None"
  | s where "row ''lotsize'' = Some s" "s \<noteq> ''-1''" "s \<noteq> []" "pn s = None"
  | s where "row ''tick_size'' = Some s" "s \<noteq> ''-1''" "s \<noteq> []" "pf s = None"
    by (auto simp: malformed_def split: option.splits)
  then show ?thesis
  proof cases
    case 1
    then have "float_of pf (row ''strike'') = Inl ValueError" by (simp add: float_of_cases)
    then show ?thesis by (simp add: make_record_def)
  next
    case 2
    then have "lotsize_of pn (row ''lotsize'') = Inl ValueError" by (simp add: lotsize_of_def)
    then show ?thesis by (simp add: make_record_def split: sum.splits)
  next
    case 3
    then have "float_of pf (row ''tick_size'') = Inl ValueError" by (simp add: float_of_cases)
    then show ?thesis by (simp add: make_record_def split: sum.splits)
  qed
qed

text \<open>
  C8. The exit status is 0 when \<^verbatim>\<open>import_instruments()\<close> returns and 1 when it raises;
  in the second case the failure message and the traceback are the last things written,
  both to the error stream. A strike, lotsize or tick_size string that is not a number
  makes the run raise: no row is skipped or repaired, and what the run leaves behind is
  the emptied instruments table.
\<close>

theorem exit_status:
  "(case import_instruments pf pn now rows (start d) of
      Inr s \<Rightarrow> main pf pn now rows d = (0, s)
    | Inl (e, s) \<Rightarrow>
        main pf pn now rows d =
          (1, s\<lparr>out := out s @ [Stderr (ImportFailed e), Stderr (Traceback e)]\<rparr>))
   \<and> (list_ex (malformed pf pn) rows \<longrightarrow>
        (\<exists>e s. import_instruments pf pn now rows (start d) = Inl (e, s)
              \<and> fst (main pf pn now rows d) = 1
              \<and> durable s = delete_instruments d
              \<and> instruments (durable s) = []))"
proof (intro conjI impI)
  show "case import_instruments pf pn now rows (start d) of
      Inr s \<Rightarrow> main pf pn now rows d = (0, s)
    | Inl (e, s) \<Rightarrow>
        main pf pn now rows d =
          (1, s\<lparr>out := out s @ [Stderr (ImportFailed e), Stderr (Traceback e)]\<rparr>)"
    by (simp add: main_def split: sum.splits prod.splits)
next
  assume "list_ex (malformed pf pn) rows"
  then obtain row where row: "row \<in> set rows" and "malformed pf pn row"
    by (auto simp: list_ex_iff)
  then have "isl (make_record pf pn [] [] row)" by (simp add: malformed_isl)
  from load_instruments_fail[OF row this] obtain e s where
    load: "load_instruments pf pn now rows (start d) = Inl (e, s)" by blast
  then have imp: "import_instruments pf pn now rows (start d) = Inl (e, s)"
    by (simp add: import_instruments_def)
  then have "fst (main pf pn now rows d) = 1" by (simp add: main_def)
  with imp load_instruments_Inl[OF load]
  show "\<exists>e s. import_instruments pf pn now rows (start d) = Inl (e, s)
              \<and> fst (main pf pn now rows d) = 1
              \<and> durable s = delete_instruments d
              \<and> instruments (durable s) = []"
    by auto
qed

theorem exit_status_witness:
  "list_ex (malformed float_example int_example) bad_strike_rows
   \<and> (\<exists>s. import_instruments float_example int_example clock_example bad_strike_rows
             (start stale_db) = Inl (ValueError, s)
          \<and> main float_example int_example clock_example bad_strike_rows stale_db =
              (1, s\<lparr>out := out s @ [Stderr (ImportFailed ValueError),
                                    Stderr (Traceback ValueError)]\<rparr>)
          \<and> instruments (durable s) = [])"
proof -
  have h: "list_ex (malformed float_example int_example) bad_strike_rows"
    by code_simp
  have v: "fst (projl (import_instruments float_example int_example clock_example
                         bad_strike_rows (start stale_db))) = ValueError"
    by code_simp
  from exit_status[of float_example int_example clock_example bad_strike_rows stale_db] h
  obtain e s where
    imp: "import_instruments float_example int_example clock_example bad_strike_rows
            (start stale_db) = Inl (e, s)"
    and emp: "instruments (durable s) = []"
    by auto
  from v imp have e: "e = ValueError" by simp
  from exit_status[of float_example int_example clock_example bad_strike_rows stale_db] imp
  have "main float_example int_example clock_example bad_strike_rows stale_db =
          (1, s\<lparr>out := out s @ [Stderr (ImportFailed e), Stderr (Traceback e)]\<rparr>)"
    by simp
  with h imp emp e show ?thesis by auto
qed




subsection \<open>Two runs on the same file\<close>

lemma make_record_untimed:
  assumes "make_record pf pn t1 t2 row = Inr r" and "make_record pf pn u1 u2 row = Inr q"
  shows "untimed r = untimed q"
  using assms by (auto simp: make_record_def untimed_def split: sum.splits)

lemma import_loop_untimed:
  assumes "import_loop pf pn now tot i rows s = Inr s'"
    and "import_loop pf pn now' tot' i rows t = Inr t'"
    and "map_option (map untimed) (batch s) = map_option (map untimed) (batch t)"
  shows "map_option (map untimed) (batch s') = map_option (map untimed) (batch t')"
  using assms
proof (induction rows arbitrary: i s t)
  case Nil
  then show ?case by simp
next
  case (Cons row rest)
  from Cons.prems(1) obtain s1 r b where
    bs: "begin_batch tot i s = Inr s1"
    and mr: "make_record pf pn (now (2 * i)) (now (2 * i + 1)) row = Inr r"
    and b: "batch s1 = Some b"
    and recs: "import_loop pf pn now tot (Suc i) rest
                (s1\<lparr>batch := Some (b @ [r]), inserted := inserted s1 + 1\<rparr>) = Inr s'"
    by (auto split: sum.splits option.splits)
  from Cons.prems(2) obtain t1 q c where
    bt: "begin_batch tot' i t = Inr t1"
    and mq: "make_record pf pn (now' (2 * i)) (now' (2 * i + 1)) row = Inr q"
    and c: "batch t1 = Some c"
    and rect: "import_loop pf pn now' tot' (Suc i) rest
                (t1\<lparr>batch := Some (c @ [q]), inserted := inserted t1 + 1\<rparr>) = Inr t'"
    by (auto split: sum.splits option.splits)
  have "map_option (map untimed) (batch s1) = map_option (map untimed) (batch t1)"
    using begin_batch_Inr(4)[OF bs] begin_batch_Inr(4)[OF bt] Cons.prems(3) by simp
  with b c have "map untimed b = map untimed c" by simp
  moreover from make_record_untimed[OF mr mq] have "untimed r = untimed q" .
  ultimately have
    "map_option (map untimed) (batch (s1\<lparr>batch := Some (b @ [r]), inserted := inserted s1 + 1\<rparr>))
     = map_option (map untimed) (batch (t1\<lparr>batch := Some (c @ [q]), inserted := inserted t1 + 1\<rparr>))"
    by simp
  from Cons.IH[OF recs rect this] show ?case .
qed

lemma import_csv_untimed:
  assumes "import_csv pf pn now rows s = Inr s'" and "import_csv pf pn now' rows t = Inr t'"
    and "batch s = None" and "batch t = None"
    and "durable s = live s" and "durable t = live t"
    and "instruments (live s) = []" and "instruments (live t) = []"
  shows "map (untimed \<circ> snd) (instruments (live s')) = map (untimed \<circ> snd) (instruments (live t'))"
proof -
  let ?s3 = "prescan rows s"
  let ?t3 = "prescan rows t"
  from assms(1) obtain s4 where
    ls: "import_loop pf pn now (length rows) 0 rows ?s3 = Inr s4"
    and fs: "final_batch s4 = Inr s'"
    by (auto simp: import_csv_def Let_def split: sum.splits)
  from assms(2) obtain t4 where
    lt: "import_loop pf pn now' (length rows) 0 rows ?t3 = Inr t4"
    and ft: "final_batch t4 = Inr t'"
    by (auto simp: import_csv_def Let_def split: sum.splits)
  have "map_option (map untimed) (batch ?s3) = map_option (map untimed) (batch ?t3)"
    using assms(3,4) by simp
  from import_loop_untimed[OF ls lt this]
  have rel: "map_option (map untimed) (batch s4) = map_option (map untimed) (batch t4)" .
  have ds: "durable ?s3 = live ?s3" and dt: "durable ?t3 = live ?t3"
    using assms(5,6) by simp_all
  from import_loop_db[OF ls ds] have s4: "live s4 = live s" by simp
  from import_loop_db[OF lt dt] have t4: "live t4 = live t" by simp
  from fs obtain b where b: "batch s4 = Some b"
    and bs: "if b \<noteq> [] then live s' = executemany b (live s4) else s' = s4"
    by (auto simp: final_batch_def split: option.splits if_splits)
  from ft obtain c where c: "batch t4 = Some c"
    and cs: "if c \<noteq> [] then live t' = executemany c (live t4) else t' = t4"
    by (auto simp: final_batch_def split: option.splits if_splits)
  from rel b c have bc: "map untimed b = map untimed c" by simp
  have rs: "map snd (instruments (live s')) = b"
  proof (cases "b = []")
    case True
    with bs s4 assms(7) show ?thesis by simp
  next
    case False
    with bs s4 have "live s' = executemany b (live s)" by simp
    with executemany_rows[of b "live s"] assms(7) show ?thesis by simp
  qed
  have rt: "map snd (instruments (live t')) = c"
  proof (cases "c = []")
    case True
    with cs t4 assms(8) show ?thesis by simp
  next
    case False
    with cs t4 have "live t' = executemany c (live t)" by simp
    with executemany_rows[of c "live t"] assms(8) show ?thesis by simp
  qed
  have "map (untimed \<circ> snd) (instruments (live s')) = map untimed (map snd (instruments (live s')))"
    by simp
  also have "\<dots> = map untimed (map snd (instruments (live t')))"
    unfolding rs rt by (rule bc)
  finally show ?thesis by simp
qed

lemma untimed_columns [simp]:
  "symbol (untimed r) = symbol r" "name (untimed r) = name r"
  "exchange (untimed r) = exchange r" "instrumenttype (untimed r) = instrumenttype r"
  by (simp_all add: untimed_def)

lemma select_sample_untimed:
  "select_sample d =
     take 5 (map (\<lambda>r. (symbol r, name r, exchange r, instrumenttype r))
               (map (untimed \<circ> snd) (instruments d)))"
  by (simp add: select_sample_def case_prod_unfold comp_def)

lemma group_count_untimed:
  assumes "\<And>r. col (untimed r) = col r"
  shows "group_count col d =
     (let ks = map col (map (untimed \<circ> snd) (instruments d))
      in rev (sort_key snd (map (\<lambda>k. (k, count_list ks k)) (remdups ks))))"
  using assms by (simp add: group_count_def case_prod_unfold comp_def)

lemma null_in_summary_untimed:
  assumes "map (untimed \<circ> snd) (instruments d) = map (untimed \<circ> snd) (instruments e)"
  shows "null_in_summary d = null_in_summary e"
proof -
  have "select_sample d = select_sample e"
    unfolding select_sample_untimed assms ..
  moreover have "group_count exchange d = group_count exchange e"
    unfolding group_count_untimed[of exchange, OF untimed_columns(3)] assms ..
  moreover have "group_count instrumenttype d = group_count instrumenttype e"
    unfolding group_count_untimed[of instrumenttype, OF untimed_columns(4)] assms ..
  ultimately show ?thesis
    by (simp add: null_in_summary_def select_by_exchange_def select_by_type_def)
qed

lemma executemany_fresh_distinct:
  "distinct (map fst (instruments (executemany b (delete_instruments d))))"
  by (rule executemany_distinct) simp

text \<open>
  C3. When a run has ended with exit status 0, a second run on the same file, started
  on the database the first run left and with any clock, ends with exit status 0 too.
  The instruments table then has as many rows as after the first run, and the same
  records apart from the timestamps: the rows of the first run are gone and each record
  is there once, under an id of its own. The log holds the row of the first run
  followed by the row of the second.
\<close>

theorem rerun_replaces:
  fixes s1 :: "'f state"
  assumes "main pf pn now rows d = (0, s1)"
  shows "\<exists>s2. main pf pn now' rows (durable s1) = (0, s2)
       \<and> count_instruments (durable s2) = count_instruments (durable s1)
       \<and> map (untimed \<circ> snd) (instruments (durable s2)) =
           map (untimed \<circ> snd) (instruments (durable s1))
       \<and> distinct (map fst (instruments (durable s2)))
       \<and> instruments_refresh_log (durable s2) =
           instruments_refresh_log d @
             [\<lparr>log_exchange = ''CSV_UPLOAD'', status = ''completed'',
               instrument_count = count_instruments (durable s1),
               refresh_started_at = now (2 * length rows),
               refresh_completed_at = now (2 * length rows + 1)\<rparr>,
              \<lparr>log_exchange = ''CSV_UPLOAD'', status = ''completed'',
               instrument_count = count_instruments (durable s2),
               refresh_started_at = now' (2 * length rows),
               refresh_completed_at = now' (2 * length rows + 1)\<rparr>]"
proof -
  let ?d2 = "durable s1"
  from assms obtain b u1 where ne: "rows \<noteq> []"
    and csv1: "import_csv pf pn now rows (clear_instruments (start d)) = Inr u1"
    and u1: "live u1 = executemany b (delete_instruments d)"
    and d2: "?d2 = insert_refresh_log (length b) (now (2 * length rows))
                     (now (2 * length rows + 1)) (insert_fts (delete_fts (live u1)))"
    and nn: "\<not> null_in_summary ?d2"
    by (rule main_success) blast
  have tab1: "instruments ?d2 = instruments (live u1)" using d2 by simp
  have cnt1: "count_instruments ?d2 = length b"
    using tab1 u1 executemany_length[of b "delete_instruments d"]
    by (simp add: count_instruments_def)
  have log1: "instruments_refresh_log ?d2 =
                instruments_refresh_log d @
                  [\<lparr>log_exchange = ''CSV_UPLOAD'', status = ''completed'',
                    instrument_count = count_instruments ?d2,
                    refresh_started_at = now (2 * length rows),
                    refresh_completed_at = now (2 * length rows + 1)\<rparr>]"
    using d2 u1 cnt1 by simp
  have conv: "\<not> isl (make_record pf pn [] [] row)" if "row \<in> set rows" for row
  proof
    assume "isl (make_record pf pn [] [] row)"
    from import_csv_fail[OF that this, of now "clear_instruments (start d)"] csv1
    show False by simp
  qed
  from load_instruments_ok[where now = now' and s = "start ?d2", OF ne conv] obtain c2 f2 t where
    load2: "load_instruments pf pn now' rows (start ?d2) = Inr (c2, f2, t)"
    by blast
  then obtain b2 u2 where c2: "c2 = length b2"
    and csv2: "import_csv pf pn now' rows (clear_instruments (start ?d2)) = Inr u2"
    and u2: "live u2 = executemany b2 (delete_instruments ?d2)"
    and t: "live t = insert_refresh_log c2 (now' (2 * length rows))
                       (now' (2 * length rows + 1)) (insert_fts (delete_fts (live u2)))"
    and dt: "durable t = live t"
    by (rule load_instruments_Inr) blast
  have tab2: "instruments (live t) = instruments (live u2)" using t by simp
  have same: "map (untimed \<circ> snd) (instruments (live u1)) =
              map (untimed \<circ> snd) (instruments (live u2))"
    by (rule import_csv_untimed[OF csv1 csv2]) simp_all
  then have same': "map (untimed \<circ> snd) (instruments (live t)) =
                    map (untimed \<circ> snd) (instruments ?d2)"
    using tab1 tab2 by simp
  from null_in_summary_untimed[OF this] nn have "\<not> null_in_summary (live t)" by simp
  from import_instruments_ok[OF load2 this] obtain s2 where
    imp2: "import_instruments pf pn now' rows (start ?d2) = Inr s2"
    and ds2: "durable s2 = durable t"
    by blast
  from imp2 have m2: "main pf pn now' rows ?d2 = (0, s2)" by (simp add: main_exit_0)
  have dur2: "durable s2 = live t" using ds2 dt by simp
  have len: "length (instruments (durable s2)) = length (instruments ?d2)"
    using arg_cong[OF same', of length] dur2 by simp
  then have cnt: "count_instruments (durable s2) = count_instruments ?d2"
    by (simp add: count_instruments_def)
  have cnt2: "count_instruments (durable s2) = c2"
    using dur2 tab2 u2 c2 executemany_length[of b2 "delete_instruments ?d2"]
    by (simp add: count_instruments_def)
  have dist: "distinct (map fst (instruments (durable s2)))"
    using dur2 tab2 u2 executemany_fresh_distinct[of b2 ?d2] by simp
  have log2: "instruments_refresh_log (durable s2) =
                instruments_refresh_log ?d2 @
                  [\<lparr>log_exchange = ''CSV_UPLOAD'', status = ''completed'',
                    instrument_count = count_instruments (durable s2),
                    refresh_started_at = now' (2 * length rows),
                    refresh_completed_at = now' (2 * length rows + 1)\<rparr>]"
    using dur2 t u2 cnt2 by simp
  have "instruments_refresh_log (durable s2) =
           instruments_refresh_log d @
             [\<lparr>log_exchange = ''CSV_UPLOAD'', status = ''completed'',
               instrument_count = count_instruments (durable s1),
               refresh_started_at = now (2 * length rows),
               refresh_completed_at = now (2 * length rows + 1)\<rparr>,
              \<lparr>log_exchange = ''CSV_UPLOAD'', status = ''completed'',
               instrument_count = count_instruments (durable s2),
               refresh_started_at = now' (2 * length rows),
               refresh_completed_at = now' (2 * length rows + 1)\<rparr>]"
    unfolding log2 by (subst log1) simp
  with m2 cnt same' dur2 dist show ?thesis by auto
qed

theorem rerun_replaces_witness:
  "main float_example int_example clock_example three_rows stale_db = (0, three_rows_run)
   \<and> (\<exists>s2. main float_example int_example (\<lambda>k. clock_example (k + 8)) three_rows
              (durable three_rows_run) = (0, s2)
          \<and> count_instruments (durable s2) = 3
          \<and> distinct (map fst (instruments (durable s2)))
          \<and> length (instruments_refresh_log (durable s2)) = 3)"
proof -
  have "fst (main float_example int_example clock_example three_rows stale_db) = 0"
    by code_simp
  then have m: "main float_example int_example clock_example three_rows stale_db
                  = (0, three_rows_run)"
    by (simp add: three_rows_run_def prod_eq_iff)
  have c: "count_instruments (durable three_rows_run) = 3"
    and l: "length (instruments_refresh_log stale_db) = 1"
    by code_simp+
  from rerun_replaces[OF m, of "\<lambda>k. clock_example (k + 8)"] obtain s2 where
    "main float_example int_example (\<lambda>k. clock_example (k + 8)) three_rows
       (durable three_rows_run) = (0, s2)"
    "count_instruments (durable s2) = count_instruments (durable three_rows_run)"
    "distinct (map fst (instruments (durable s2)))"
    "length (instruments_refresh_log (durable s2)) =
       length (instruments_refresh_log stale_db) + 2"
    by auto
  with m c l show ?thesis by auto
qed

subsection \<open>Files of more than one batch\<close>

lemma import_loop_append:
  "import_loop pf pn now tot i (xs @ ys) s =
     (case import_loop pf pn now tot i xs s of
        Inl e \<Rightarrow> Inl e
      | Inr s' \<Rightarrow> import_loop pf pn now tot (i + length xs) ys s')"
  by (induction xs arbitrary: i s) (simp_all split: sum.splits option.splits)

lemma no_null_in_summary:
  assumes "\<And>i r. (i, r) \<in> set (instruments d) \<Longrightarrow>
             symbol r \<noteq> None \<and> name r \<noteq> None \<and> exchange r \<noteq> None \<and> instrumenttype r \<noteq> None"
  shows "\<not> null_in_summary d"
proof -
  have a: "\<not> list_ex (\<lambda>(c0, c1, c2, c3). c0 = None \<or> c1 = None \<or> c2 = None) (select_sample d)"
  proof
    assume "list_ex (\<lambda>(c0, c1, c2, c3). c0 = None \<or> c1 = None \<or> c2 = None) (select_sample d)"
    then obtain x where xin: "x \<in> set (select_sample d)"
      and x: "case x of (c0, c1, c2, c3) \<Rightarrow> c0 = None \<or> c1 = None \<or> c2 = None"
      by (auto simp: list_ex_iff)
    from xin have "x \<in> set (map (\<lambda>(i, r). (symbol r, name r, exchange r, instrumenttype r))
                          (instruments d))"
      unfolding select_sample_def by (rule in_set_takeD)
    then obtain i r where "(i, r) \<in> set (instruments d)"
      and "x = (symbol r, name r, exchange r, instrumenttype r)"
      by auto
    with assms[of i r] x show False by auto
  qed
  have keys: "k \<noteq> None" if "(k, n) \<in> set (group_count col d)"
    and "\<And>i r. (i, r) \<in> set (instruments d) \<Longrightarrow> col r \<noteq> None" for k n col
  proof -
    from that(1) have "k \<in> fst ` set (group_count col d)" by force
    then have "k \<in> col ` snd ` set (instruments d)" by (simp only: group_count_keys)
    then obtain i r where "(i, r) \<in> set (instruments d)" "k = col r" by auto
    with that(2) show ?thesis by simp
  qed
  have b: "\<not> list_ex (\<lambda>(k, n). k = None) (select_by_exchange d)"
  proof
    assume "list_ex (\<lambda>(k, n). k = None) (select_by_exchange d)"
    then obtain n where "(None, n) \<in> set (select_by_exchange d)"
      by (auto simp: list_ex_iff)
    then have "(None, n) \<in> set (group_count exchange d)"
      unfolding select_by_exchange_def by (rule in_set_takeD)
    from keys[OF this] assms show False by blast
  qed
  have c: "\<not> list_ex (\<lambda>(k, n). k = None) (select_by_type d)"
  proof
    assume "list_ex (\<lambda>(k, n). k = None) (select_by_type d)"
    then obtain n where "(None, n) \<in> set (group_count instrumenttype d)"
      by (auto simp: list_ex_iff select_by_type_def)
    from keys[OF this] assms show False by blast
  qed
  from a b c show ?thesis by (simp add: null_in_summary_def)
qed

lemma main_ok:
  fixes d :: "'f db"
  assumes ne: "rows \<noteq> []"
    and conv: "\<And>row. row \<in> set rows \<Longrightarrow> \<not> isl (make_record pf pn [] [] row)"
    and cols: "\<And>row. row \<in> set rows \<Longrightarrow>
                 or_none (row ''symbol'') \<noteq> None \<and> or_none (row ''name'') \<noteq> None
               \<and> or_none (row ''exchange'') \<noteq> None \<and> or_none (row ''instrumenttype'') \<noteq> None"
  shows "\<exists>s. main pf pn now rows d = (0, s)
           \<and> count_instruments (durable s) = (length rows - 1) mod batch_size + 1"
proof -
  from load_instruments_ok[where now = now and s = "start d", OF ne conv] obtain c f t where
    load: "load_instruments pf pn now rows (start d) = Inr (c, f, t)"
    by blast
  then obtain b u where len: "length b = (length rows - 1) mod batch_size + 1"
    and u: "live (u :: 'f state) = executemany b (delete_instruments d)"
    and t: "live t = insert_refresh_log c (now (2 * length rows)) (now (2 * length rows + 1))
                       (insert_fts (delete_fts (live u)))"
    and dt: "durable t = live t"
    and src: "\<And>r. r \<in> set b \<Longrightarrow> \<exists>row\<in>set rows. \<exists>t1 t2. make_record pf pn t1 t2 row = Inr r"
    by (rule load_instruments_Inr) blast
  have rows_b: "map snd (instruments (live t)) = b"
    using t u executemany_rows[of b "delete_instruments d"] by simp
  have "\<not> null_in_summary (live t)"
  proof (rule no_null_in_summary)
    fix i r assume "(i, r) \<in> set (instruments (live t))"
    then have "r \<in> set (map snd (instruments (live t)))" by force
    with rows_b have "r \<in> set b" by simp
    from src[OF this] obtain row t1 t2 where row: "row \<in> set rows"
      and mr: "make_record pf pn t1 t2 row = Inr r" by blast
    from make_record_fields(4-7)[OF mr] cols[OF row]
    show "symbol r \<noteq> None \<and> name r \<noteq> None \<and> exchange r \<noteq> None \<and> instrumenttype r \<noteq> None"
      by simp
  qed
  from import_instruments_ok[OF load this] obtain s where
    imp: "import_instruments pf pn now rows (start d) = Inr s" and ds: "durable s = durable t"
    by blast
  have "count_instruments (durable s) = length b"
    using ds dt arg_cong[OF rows_b, of length] by (simp add: count_instruments_def)
  with imp len show ?thesis by (simp add: main_exit_0)
qed

lemma numbered_row_fields:
  "numbered_row k ''symbol'' = Some (CHR ''S'' # replicate k (CHR ''X''))"
  "numbered_row k ''name'' = Some ''ACME''"
  "numbered_row k ''exchange'' = Some ''NSE''"
  "numbered_row k ''instrumenttype'' = Some ''EQ''"
  "numbered_row k ''strike'' = Some ''-1''"
  "numbered_row k ''lotsize'' = Some []"
  "numbered_row k ''tick_size'' = Some ''-1''"
  by (simp_all add: numbered_row_def dict_row_def fieldnames_def)

lemma numbered_row_ok:
  "\<not> isl (make_record pf pn t1 t2 (numbered_row k))"
  "or_none (numbered_row k ''symbol'') \<noteq> None \<and> or_none (numbered_row k ''name'') \<noteq> None
   \<and> or_none (numbered_row k ''exchange'') \<noteq> None
   \<and> or_none (numbered_row k ''instrumenttype'') \<noteq> None"
  by (simp_all add: make_record_def float_of_def lotsize_of_def or_none_def numbered_row_fields)

text \<open>
  C1 fails on the code for a file of more than 1000 rows. The file \<open>rows_1001\<close> has 1001
  data rows; the run ends with exit status 0 and the instruments table holds one row.
  (For a file of \<open>N > 0\<close> well-formed rows the table ends with
  \<open>(N - 1) mod 1000 + 1\<close> rows, the records of the last batch: the only \<^verbatim>\<open>executemany\<close>
  is after the loop, and at every multiple of 1000 the loop rebinds \<^verbatim>\<open>batch\<close> to an
  empty list without having written the previous one.)
\<close>

theorem rows_1001_one_row_stored:
  "length rows_1001 = 1001
   \<and> fst (main float_example int_example clock_example rows_1001 stale_db) = 0
   \<and> count_instruments
       (durable (snd (main float_example int_example clock_example rows_1001 stale_db))) = 1"
proof -
  have len: "length rows_1001 = 1001" by (simp add: rows_1001_def)
  then have ne: "rows_1001 \<noteq> []" by auto
  have mem: "\<exists>k. row = numbered_row k" if "row \<in> set rows_1001" for row
    using that by (auto simp: rows_1001_def)
  have conv: "\<not> isl (make_record float_example int_example [] [] row)"
    if "row \<in> set rows_1001" for row
    using mem[OF that] numbered_row_ok(1)[of float_example int_example "[]" "[]"] by auto
  have cols: "or_none (row ''symbol'') \<noteq> None \<and> or_none (row ''name'') \<noteq> None
               \<and> or_none (row ''exchange'') \<noteq> None \<and> or_none (row ''instrumenttype'') \<noteq> None"
    if "row \<in> set rows_1001" for row
    using mem[OF that] numbered_row_ok(2) by auto
  from main_ok[where now = clock_example and d = stale_db, OF ne conv cols] obtain s where
    "main float_example int_example clock_example rows_1001 stale_db = (0, s)"
    "count_instruments (durable s) = (length rows_1001 - 1) mod batch_size + 1"
    by blast
  with len show ?thesis by (simp add: batch_size_def)
qed

text \<open>
  C2 fails on the code at the first batch boundary. In the run on \<open>rows_1001\<close>, the loop
  has processed rows 0 to 999 when it reaches index 1000 (the state \<open>s\<close>, from which the
  run goes on with the last row): 1000 records are counted in \<^verbatim>\<open>inserted\<close>. The head of
  the loop body then commits and prints \<^verbatim>\<open>Committed batch: 1,000 records\<close> and the
  progress line, and the instruments table is empty, both as the connection sees it and
  as committed: no record has been inserted. (C1 fails by the same defect.)
\<close>

theorem batch_boundary_nothing_inserted:
  "\<exists>s s'. import_loop float_example int_example clock_example 1001 0 (take 1000 rows_1001)
             (prescan rows_1001 (clear_instruments (start stale_db))) = Inr s
       \<and> import_loop float_example int_example clock_example 1001 0 rows_1001
             (prescan rows_1001 (clear_instruments (start stale_db)))
           = import_loop float_example int_example clock_example 1001 1000
               (drop 1000 rows_1001) s
       \<and> inserted s = 1000
       \<and> begin_batch 1001 1000 s = Inr s'
       \<and> out s' = out s @ [Stdout (CommittedBatch 1000), Stdout (Processing 1000 1001)]
       \<and> batch s' = Some []
       \<and> instruments (live s') = []
       \<and> instruments (durable s') = []"
proof -
  let ?s0 = "prescan rows_1001 (clear_instruments (start stale_db))"
  let ?xs = "take 1000 rows_1001"
  have len: "length ?xs = 1000" by (simp add: rows_1001_def)
  have conv: "\<not> isl (make_record float_example int_example [] [] row)"
    if "row \<in> set ?xs" for row
  proof -
    from that have "row \<in> set rows_1001" by (rule in_set_takeD)
    then obtain k where "row = numbered_row k" by (auto simp: rows_1001_def)
    with numbered_row_ok(1)[of float_example int_example "[]" "[]"] show ?thesis by auto
  qed
  from import_loop_ok[where tot = 1001 and i = 0 and s = ?s0 and now = clock_example,
      OF _ conv]
  obtain s where
    loop: "import_loop float_example int_example clock_example 1001 0 ?xs ?s0 = Inr s"
    by auto
  have "import_loop float_example int_example clock_example 1001 0 (?xs @ drop 1000 rows_1001) ?s0
          = import_loop float_example int_example clock_example 1001 1000
              (drop 1000 rows_1001) s"
    unfolding import_loop_append using loop len by simp
  then have full: "import_loop float_example int_example clock_example 1001 0 rows_1001 ?s0
          = import_loop float_example int_example clock_example 1001 1000
              (drop 1000 rows_1001) s"
    by simp
  from import_loop_fields[OF loop] len have ins: "inserted s = 1000" by simp
  have "durable ?s0 = live ?s0" by simp
  from import_loop_db[OF loop this]
  have db: "instruments (live s) = []" "instruments (durable s) = []" by simp_all
  let ?s' = "print_line (Processing 1000 1001)
               ((print_line (CommittedBatch (inserted s)) (commit s))\<lparr>batch := Some []\<rparr>)"
  have bb: "begin_batch 1001 1000 s = Inr ?s'"
    by (simp add: begin_batch_def batch_size_def)
  have "out ?s' = out s @ [Stdout (CommittedBatch 1000), Stdout (Processing 1000 1001)]"
    "batch ?s' = Some []" "instruments (live ?s') = []" "instruments (durable ?s') = []"
    using ins db by simp_all
  with loop full ins bb show ?thesis by blast
qed

end
